theory Spec2Isabelle
  imports
    Complex_Main
    "HOL-Library.Char_ord"
    "HOL-Library.List_Lexorder"
    "HOL-Library.Option_ord"
begin

section \<open>The database of \<open>server.ts\<close>\<close>

text \<open>
  The server keeps all of its state in one SQLite file with five tables (the
  \<^verbatim>\<open>CREATE TABLE\<close> statements at the top of \<open>server.ts\<close>). A table is modelled as
  the list of its rows in rowid order, each row paired with its rowid (the
  \<^verbatim>\<open>id INTEGER PRIMARY KEY AUTOINCREMENT\<close> column). A nullable column is an \<open>option\<close>,
  with \<open>None\<close> for SQL \<^verbatim>\<open>NULL\<close>; a \<^verbatim>\<open>NOT NULL\<close> column is its plain type.

  Conventions of the embedding:
  \<^item> \<^verbatim>\<open>REAL\<close> columns and JavaScript numbers are \<^typ>\<open>real\<close>; arithmetic is exact.
  \<^item> \<^verbatim>\<open>TEXT\<close>, \<^verbatim>\<open>DATE\<close> and \<^verbatim>\<open>DATETIME\<close> columns hold text; text is compared
    bytewise (SQLite's \<^verbatim>\<open>BINARY\<close> collation), which is the lexicographic order on
    \<^typ>\<open>string\<close>, and \<^verbatim>\<open>NULL\<close> sorts before every value, which is the order on
    \<^typ>\<open>string option\<close>.
  \<^item> a client id taken from the URL is the integer it denotes.
  \<^item> \<^verbatim>\<open>CURRENT_TIMESTAMP\<close> is an explicit argument \<open>now\<close> of each operation.
  \<^item> the \<^verbatim>\<open>better-sqlite3\<close> driver enforces foreign keys (it is built with
    \<^verbatim>\<open>SQLITE_DEFAULT_FOREIGN_KEYS=1\<close> and \<open>server.ts\<close> never switches them off), so
    the \<^verbatim>\<open>FOREIGN KEY (client_id) REFERENCES clients(id) ON DELETE CASCADE\<close> clauses of
    the schema are in force: an insert of a child row naming an absent client fails,
    and deleting a client row deletes the child rows that name it.
\<close>

type_synonym 'r table = "(int \<times> 'r) list"

record client =
  c_name :: string
  c_email :: "string option"
  c_phone :: "string option"
  c_company :: "string option"
  c_notes :: "string option"
  c_managed_by :: "string option"
  c_status :: "string option"
  c_created_at :: "string option"

record service =
  s_client_id :: "int option"
  s_service_type :: string
  s_price :: "real option"

record payment =
  p_client_id :: "int option"
  p_total_amount :: "real option"
  p_advance_paid :: "real option"
  p_remaining_balance :: "real option"
  p_last_updated :: "string option"

record task =
  t_client_id :: "int option"
  t_title :: string
  t_assigned_to :: "string option"
  t_due_date :: "string option"
  t_status :: "string option"
  t_created_at :: "string option"

record ledger_entry =
  x_client_id :: "int option"
  x_amount :: real
  x_type :: "string option"
  x_created_at :: "string option"

text \<open>
  The state: the five tables, and for each the counter that SQLite keeps in
  \<^verbatim>\<open>sqlite_sequence\<close> for an \<^verbatim>\<open>AUTOINCREMENT\<close> key (the largest rowid the table ever
  held).
\<close>

record db =
  clients :: "client table"
  services :: "service table"
  payments :: "payment table"
  tasks :: "task table"
  transactions :: "ledger_entry table"
  seq_clients :: int
  seq_services :: int
  seq_payments :: int
  seq_tasks :: int
  seq_transactions :: int

definition empty_db :: db where
  "empty_db = \<lparr>clients = [], services = [], payments = [], tasks = [], transactions = [],
     seq_clients = 0, seq_services = 0, seq_payments = 0, seq_tasks = 0,
     seq_transactions = 0\<rparr>"

datatype sql_error = NotNull | ForeignKey | UniqueKey | NotIterable

datatype response =
    Created int
  | Success
  | NoContent
  | NotFound
  | ServerError sql_error

subsection \<open>The engine: rowids, constraints, statements\<close>

definition rowids :: "'r table \<Rightarrow> int list" where
  "rowids t = map fst t"

definition has_rowid :: "int \<Rightarrow> 'r table \<Rightarrow> bool" where
  "has_rowid i t = (i \<in> set (rowids t))"

text \<open>An \<^verbatim>\<open>AUTOINCREMENT\<close> key: one more than the largest rowid the table holds or ever held.\<close>

definition next_rowid :: "int \<Rightarrow> 'r table \<Rightarrow> int" where
  "next_rowid seq t = fold max (rowids t) seq + 1"

text \<open>The B-tree keeps the rows by rowid.\<close>

definition put_row :: "int \<Rightarrow> 'r \<Rightarrow> 'r table \<Rightarrow> 'r table" where
  "put_row i r t = insort_key fst (i, r) t"

text \<open>A foreign key holds when the column is \<^verbatim>\<open>NULL\<close> or names a row of \<open>clients\<close>.\<close>

definition fk_ok :: "int option \<Rightarrow> db \<Rightarrow> bool" where
  "fk_ok c d = (case c of None \<Rightarrow> True | Some i \<Rightarrow> has_rowid i (clients d))"

text \<open>The rows a cascade from the deleted clients \<open>gone\<close> leaves in a child table.\<close>

definition survives :: "int list \<Rightarrow> int option \<Rightarrow> bool" where
  "survives gone c = (case c of None \<Rightarrow> True | Some i \<Rightarrow> i \<notin> set gone)"

definition cascade :: "int list \<Rightarrow> db \<Rightarrow> db" where
  "cascade gone d = d\<lparr>
     services := filter (\<lambda>(i, s). survives gone (s_client_id s)) (services d),
     payments := filter (\<lambda>(i, p). survives gone (p_client_id p)) (payments d),
     tasks := filter (\<lambda>(i, t). survives gone (t_client_id t)) (tasks d),
     transactions := filter (\<lambda>(i, x). survives gone (x_client_id x)) (transactions d)\<rparr>"

text \<open>\<^verbatim>\<open>db.transaction(fn)()\<close>: commit what \<open>fn\<close> did, or roll all of it back and rethrow.\<close>

definition transaction :: "(db \<Rightarrow> sql_error + 'a \<times> db) \<Rightarrow> db \<Rightarrow> (sql_error + 'a) \<times> db" where
  "transaction body d = (case body d of Inl e \<Rightarrow> (Inl e, d) | Inr (a, d') \<Rightarrow> (Inr a, d'))"

subsection \<open>\<^verbatim>\<open>PATCH /api/payments/:clientId\<close>\<close>

text \<open>\<^verbatim>\<open>SELECT total_amount, advance_paid FROM payments WHERE client_id = ?\<close>, first row.\<close>

definition select_payment :: "int \<Rightarrow> db \<Rightarrow> (int \<times> payment) option" where
  "select_payment cid d = find (\<lambda>(i, p). p_client_id p = Some cid) (payments d)"

text \<open>JavaScript's \<open>ToNumber\<close> on a column read back: \<^verbatim>\<open>null\<close> is \<open>0\<close>.\<close>

definition to_number :: "real option \<Rightarrow> real" where
  "to_number v = (case v of None \<Rightarrow> 0 | Some x \<Rightarrow> x)"

text \<open>
  \<^verbatim>\<open>UPDATE payments SET advance_paid = ?, remaining_balance = ?,
  last_updated = CURRENT_TIMESTAMP WHERE client_id = ?\<close>
\<close>

definition update_payments :: "real \<Rightarrow> real \<Rightarrow> string \<Rightarrow> int \<Rightarrow> db \<Rightarrow> db" where
  "update_payments adv remaining now cid d = d\<lparr>payments :=
     map (\<lambda>(i, p). if p_client_id p = Some cid
            then (i, p\<lparr>p_advance_paid := Some adv, p_remaining_balance := Some remaining,
                       p_last_updated := Some now\<rparr>)
            else (i, p)) (payments d)\<rparr>"

text \<open>\<^verbatim>\<open>INSERT INTO transactions (client_id, amount) VALUES (?, ?)\<close>\<close>

definition insert_transaction :: "int \<Rightarrow> real \<Rightarrow> string \<Rightarrow> db \<Rightarrow> sql_error + db" where
  "insert_transaction cid amt now d =
     (if \<not> fk_ok (Some cid) d then Inl ForeignKey
      else let i = next_rowid (seq_transactions d) (transactions d) in
        Inr (d\<lparr>transactions := put_row i
                 \<lparr>x_client_id = Some cid, x_amount = amt, x_type = Some ''payment'',
                  x_created_at = Some now\<rparr> (transactions d),
               seq_transactions := i\<rparr>))"

text \<open>The body of \<open>updatePayment\<close>; \<open>amount_added\<close> is \<open>None\<close> when the request has none.\<close>

definition updatePayment :: "payment \<Rightarrow> real \<Rightarrow> real option \<Rightarrow> string \<Rightarrow> int \<Rightarrow> db
    \<Rightarrow> sql_error + unit \<times> db" where
  "updatePayment pay advance_paid amount_added now cid d =
     (let remaining = to_number (p_total_amount pay) - advance_paid;
          d1 = update_payments advance_paid remaining now cid d
      in case amount_added of
           None \<Rightarrow> Inr ((), d1)
         | Some a \<Rightarrow>
             if a \<noteq> 0 \<and> a > 0
             then (case insert_transaction cid a now d1 of
                     Inl e \<Rightarrow> Inl e | Inr d2 \<Rightarrow> Inr ((), d2))
             else Inr ((), d1))"

definition patch_payment :: "int \<Rightarrow> real \<Rightarrow> real option \<Rightarrow> string \<Rightarrow> db \<Rightarrow> response \<times> db" where
  "patch_payment cid advance_paid amount_added now d =
     (case select_payment cid d of
        None \<Rightarrow> (NotFound, d)
      | Some (i, pay) \<Rightarrow>
          (case transaction (updatePayment pay advance_paid amount_added now cid) d of
             (Inl e, d') \<Rightarrow> (ServerError e, d')
           | (Inr u, d') \<Rightarrow> (Success, d')))"

text \<open>A \<^verbatim>\<open>for (const x of xs) stmt.run(x)\<close> loop: the first failing statement throws.\<close>

fun for_each :: "('a \<Rightarrow> db \<Rightarrow> sql_error + db) \<Rightarrow> 'a list \<Rightarrow> db \<Rightarrow> sql_error + db" where
  "for_each run [] d = Inr d"
| "for_each run (x # xs) d = (case run x d of Inl e \<Rightarrow> Inl e | Inr d' \<Rightarrow> for_each run xs d')"

subsection \<open>\<^verbatim>\<open>POST /api/clients\<close>\<close>

text \<open>
  The request body. A text field is \<open>None\<close> when the body has \<^verbatim>\<open>null\<close> for it;
  \<open>services\<close> is \<open>None\<close> when the body has no array there; the amounts are numbers.
\<close>

record new_client =
  n_name :: "string option"
  n_email :: "string option"
  n_phone :: "string option"
  n_company :: "string option"
  n_services :: "string option list option"
  n_total_amount :: real
  n_advance_paid :: real
  n_notes :: "string option"
  n_managed_by :: "string option"

text \<open>
  \<^verbatim>\<open>INSERT INTO clients (name, email, phone, company, notes, managed_by)
  VALUES (?, ?, ?, ?, ?, ?)\<close>, giving \<open>lastInsertRowid\<close>.
\<close>

definition insert_client :: "string option \<Rightarrow> string option \<Rightarrow> string option \<Rightarrow> string option
    \<Rightarrow> string option \<Rightarrow> string option \<Rightarrow> string \<Rightarrow> db \<Rightarrow> sql_error + int \<times> db" where
  "insert_client nm em ph co nt mb now d =
     (case nm of
        None \<Rightarrow> Inl NotNull
      | Some n \<Rightarrow>
          let i = next_rowid (seq_clients d) (clients d) in
          Inr (i, d\<lparr>clients := put_row i
                 \<lparr>c_name = n, c_email = em, c_phone = ph, c_company = co, c_notes = nt,
                  c_managed_by = mb, c_status = Some ''active'', c_created_at = Some now\<rparr>
                 (clients d),
               seq_clients := i\<rparr>))"

text \<open>\<^verbatim>\<open>INSERT INTO services (client_id, service_type) VALUES (?, ?)\<close>\<close>

definition insert_service :: "int \<Rightarrow> string option \<Rightarrow> db \<Rightarrow> sql_error + db" where
  "insert_service cid st d =
     (case st of
        None \<Rightarrow> Inl NotNull
      | Some s \<Rightarrow>
          if \<not> fk_ok (Some cid) d then Inl ForeignKey
          else let i = next_rowid (seq_services d) (services d) in
            Inr (d\<lparr>services := put_row i
                   \<lparr>s_client_id = Some cid, s_service_type = s, s_price = Some 0\<rparr> (services d),
                 seq_services := i\<rparr>))"

text \<open>
  \<^verbatim>\<open>INSERT INTO payments (client_id, total_amount, advance_paid, remaining_balance)
  VALUES (?, ?, ?, ?)\<close>
\<close>

definition insert_payment :: "int \<Rightarrow> real \<Rightarrow> real \<Rightarrow> real \<Rightarrow> string \<Rightarrow> db \<Rightarrow> sql_error + db" where
  "insert_payment cid tot adv remaining now d =
     (if \<not> fk_ok (Some cid) d then Inl ForeignKey
      else let i = next_rowid (seq_payments d) (payments d) in
        Inr (d\<lparr>payments := put_row i
               \<lparr>p_client_id = Some cid, p_total_amount = Some tot, p_advance_paid = Some adv,
                p_remaining_balance = Some remaining, p_last_updated = Some now\<rparr> (payments d),
             seq_payments := i\<rparr>))"

definition insertClient :: "new_client \<Rightarrow> string \<Rightarrow> db \<Rightarrow> sql_error + int \<times> db" where
  "insertClient b now d =
     (case insert_client (n_name b) (n_email b) (n_phone b) (n_company b) (n_notes b)
             (n_managed_by b) now d of
        Inl e \<Rightarrow> Inl e
      | Inr (clientId, d1) \<Rightarrow>
          (case n_services b of
             None \<Rightarrow> Inl NotIterable
           | Some ss \<Rightarrow>
               (case for_each (insert_service clientId) ss d1 of
                  Inl e \<Rightarrow> Inl e
                | Inr d2 \<Rightarrow>
                    let remaining = n_total_amount b - n_advance_paid b in
                    (case insert_payment clientId (n_total_amount b) (n_advance_paid b)
                            remaining now d2 of
                       Inl e \<Rightarrow> Inl e
                     | Inr d3 \<Rightarrow> Inr (clientId, d3)))))"

definition create_client :: "new_client \<Rightarrow> string \<Rightarrow> db \<Rightarrow> response \<times> db" where
  "create_client b now d =
     (case transaction (insertClient b now) d of
        (Inl e, d') \<Rightarrow> (ServerError e, d')
      | (Inr i, d') \<Rightarrow> (Created i, d'))"

subsection \<open>\<^verbatim>\<open>DELETE /api/clients/:id\<close>\<close>

text \<open>\<^verbatim>\<open>DELETE FROM clients WHERE id = ?\<close>, with the cascade into the child tables.\<close>

definition delete_client_row :: "int \<Rightarrow> db \<Rightarrow> db" where
  "delete_client_row cid d =
     cascade (filter (\<lambda>i. i = cid) (rowids (clients d)))
       (d\<lparr>clients := filter (\<lambda>(i, c). i \<noteq> cid) (clients d)\<rparr>)"

definition delete_client :: "int \<Rightarrow> db \<Rightarrow> response \<times> db" where
  "delete_client cid d = (NoContent, delete_client_row cid d)"

subsection \<open>\<^verbatim>\<open>PATCH /api/clients/:id\<close>\<close>

record client_patch =
  u_name :: "string option"
  u_email :: "string option"
  u_phone :: "string option"
  u_company :: "string option"
  u_notes :: "string option"
  u_services :: "string option list option"
  u_managed_by :: "string option"

text \<open>
  \<^verbatim>\<open>UPDATE clients SET name = ?, email = ?, phone = ?, company = ?, notes = ?,
  managed_by = ? WHERE id = ?\<close>
\<close>

definition update_client_row :: "string option \<Rightarrow> string option \<Rightarrow> string option \<Rightarrow> string option
    \<Rightarrow> string option \<Rightarrow> string option \<Rightarrow> int \<Rightarrow> db \<Rightarrow> sql_error + db" where
  "update_client_row nm em ph co nt mb cid d =
     (if \<not> has_rowid cid (clients d) then Inr d
      else case nm of
        None \<Rightarrow> Inl NotNull
      | Some n \<Rightarrow> Inr (d\<lparr>clients :=
          map (\<lambda>(i, c). if i = cid
                 then (i, c\<lparr>c_name := n, c_email := em, c_phone := ph, c_company := co,
                            c_notes := nt, c_managed_by := mb\<rparr>)
                 else (i, c)) (clients d)\<rparr>))"

text \<open>\<^verbatim>\<open>DELETE FROM services WHERE client_id = ?\<close>\<close>

definition delete_services_of :: "int \<Rightarrow> db \<Rightarrow> db" where
  "delete_services_of cid d =
     d\<lparr>services := filter (\<lambda>(i, s). s_client_id s \<noteq> Some cid) (services d)\<rparr>"

definition updateClient :: "client_patch \<Rightarrow> int \<Rightarrow> db \<Rightarrow> sql_error + unit \<times> db" where
  "updateClient b clientId d =
     (case update_client_row (u_name b) (u_email b) (u_phone b) (u_company b) (u_notes b)
             (u_managed_by b) clientId d of
        Inl e \<Rightarrow> Inl e
      | Inr d1 \<Rightarrow>
          (case u_services b of
             None \<Rightarrow> Inr ((), d1)
           | Some ss \<Rightarrow>
               (case for_each (insert_service clientId) ss (delete_services_of clientId d1) of
                  Inl e \<Rightarrow> Inl e
                | Inr d2 \<Rightarrow> Inr ((), d2))))"

definition update_client :: "int \<Rightarrow> client_patch \<Rightarrow> db \<Rightarrow> response \<times> db" where
  "update_client clientId b d =
     (case transaction (updateClient b clientId) d of
        (Inl e, d') \<Rightarrow> (ServerError e, d')
      | (Inr u, d') \<Rightarrow> (Success, d'))"

subsection \<open>The task routes\<close>

text \<open>\<^verbatim>\<open>INSERT INTO tasks (client_id, title, assigned_to, due_date) VALUES (?, ?, ?, ?)\<close>\<close>

definition create_task :: "int option \<Rightarrow> string option \<Rightarrow> string option \<Rightarrow> string option \<Rightarrow> string
    \<Rightarrow> db \<Rightarrow> response \<times> db" where
  "create_task client_id title assigned_to due_date now d =
     (case title of
        None \<Rightarrow> (ServerError NotNull, d)
      | Some ti \<Rightarrow>
          if \<not> fk_ok client_id d then (ServerError ForeignKey, d)
          else let i = next_rowid (seq_tasks d) (tasks d) in
            (Created i, d\<lparr>tasks := put_row i
               \<lparr>t_client_id = client_id, t_title = ti, t_assigned_to = assigned_to,
                t_due_date = due_date, t_status = Some ''pending'', t_created_at = Some now\<rparr>
               (tasks d),
             seq_tasks := i\<rparr>))"

text \<open>\<^verbatim>\<open>UPDATE tasks SET status = ? WHERE id = ?\<close>\<close>

definition patch_task :: "int \<Rightarrow> string option \<Rightarrow> db \<Rightarrow> response \<times> db" where
  "patch_task tid st d =
     (Success, d\<lparr>tasks := map (\<lambda>(i, t). if i = tid then (i, t\<lparr>t_status := st\<rparr>) else (i, t))
        (tasks d)\<rparr>)"

text \<open>\<^verbatim>\<open>DELETE FROM tasks WHERE id = ?\<close>\<close>

definition delete_task :: "int \<Rightarrow> db \<Rightarrow> response \<times> db" where
  "delete_task tid d = (NoContent, d\<lparr>tasks := filter (\<lambda>(i, t). i \<noteq> tid) (tasks d)\<rparr>)"


subsection \<open>\<^verbatim>\<open>ORDER BY\<close>\<close>

text \<open>Sorting by a comparison; \<open>le x y\<close> says that \<open>x\<close> may stand before \<open>y\<close>.\<close>

fun insert_by :: "('a \<Rightarrow> 'a \<Rightarrow> bool) \<Rightarrow> 'a \<Rightarrow> 'a list \<Rightarrow> 'a list" where
  "insert_by le x [] = [x]"
| "insert_by le x (y # ys) = (if le x y then x # y # ys else y # insert_by le x ys)"

definition order_by :: "('a \<Rightarrow> 'a \<Rightarrow> bool) \<Rightarrow> 'a list \<Rightarrow> 'a list" where
  "order_by le xs = foldr (insert_by le) xs []"

subsection \<open>\<^verbatim>\<open>GET /api/clients\<close>\<close>

text \<open>One element of the answer: \<open>c.*\<close>, the \<open>services\<close> array and the joined columns.\<close>

record client_view =
  v_id :: int
  v_client :: client
  v_services :: "string list"
  v_total_amount :: "real option"
  v_advance_paid :: "real option"
  v_remaining_balance :: "real option"
  v_pending_tasks :: nat

fun join_with :: "char \<Rightarrow> string list \<Rightarrow> string" where
  "join_with sep [] = []"
| "join_with sep [x] = x"
| "join_with sep (x # y # ys) = x @ sep # join_with sep (y # ys)"

text \<open>
  \<^verbatim>\<open>(SELECT GROUP_CONCAT(service_type) FROM services WHERE client_id = c.id)\<close>:
  \<^verbatim>\<open>NULL\<close> over no rows, else the values joined by commas.
\<close>

definition service_types :: "int \<Rightarrow> db \<Rightarrow> string list" where
  "service_types cid d =
     map (\<lambda>(i, s). s_service_type s) (filter (\<lambda>(i, s). s_client_id s = Some cid) (services d))"

definition group_concat :: "string list \<Rightarrow> string option" where
  "group_concat xs = (if xs = [] then None else Some (join_with CHR '','' xs))"

text \<open>JavaScript's \<open>str.split(sep)\<close> for a separator of one character.\<close>

fun split_on :: "char \<Rightarrow> string \<Rightarrow> string list" where
  "split_on sep [] = [[]]"
| "split_on sep (c # cs) =
     (if c = sep then [] # split_on sep cs
      else (c # hd (split_on sep cs)) # tl (split_on sep cs))"

text \<open>\<^verbatim>\<open>c.services ? c.services.split(',') : []\<close>; \<^verbatim>\<open>null\<close> and the empty string are falsy.\<close>

definition services_field :: "string option \<Rightarrow> string list" where
  "services_field v =
     (case v of None \<Rightarrow> [] | Some str \<Rightarrow> if str = [] then [] else split_on CHR '','' str)"

text \<open>\<^verbatim>\<open>LEFT JOIN payments p ON c.id = p.client_id\<close>: every match, or one row of \<^verbatim>\<open>NULL\<close>s.\<close>

definition left_join_payments :: "int \<Rightarrow> db \<Rightarrow> payment option list" where
  "left_join_payments cid d =
     (case filter (\<lambda>(i, p). p_client_id p = Some cid) (payments d) of
        [] \<Rightarrow> [None]
      | ps \<Rightarrow> map (\<lambda>(i, p). Some p) ps)"

definition pending_tasks :: "int \<Rightarrow> db \<Rightarrow> nat" where
  "pending_tasks cid d =
     length (filter (\<lambda>(i, t). t_client_id t = Some cid \<and> t_status t = Some ''pending'') (tasks d))"

definition client_rows :: "db \<Rightarrow> client_view list" where
  "client_rows d =
     concat (map (\<lambda>(i, c).
       map (\<lambda>p. \<lparr>v_id = i, v_client = c,
                  v_services = services_field (group_concat (service_types i d)),
                  v_total_amount = Option.bind p p_total_amount,
                  v_advance_paid = Option.bind p p_advance_paid,
                  v_remaining_balance = Option.bind p p_remaining_balance,
                  v_pending_tasks = pending_tasks i d\<rparr>)
           (left_join_payments i d)) (clients d))"

definition list_clients :: "db \<Rightarrow> client_view list" where
  "list_clients d =
     order_by (\<lambda>a b. c_created_at (v_client b) \<le> c_created_at (v_client a)) (client_rows d)"

subsection \<open>\<^verbatim>\<open>GET /api/tasks\<close>\<close>

record task_view =
  tv_id :: int
  tv_task :: task
  tv_client_name :: string

text \<open>
  \<^verbatim>\<open>FROM tasks t JOIN clients c ON t.client_id = c.id\<close>, with
  \<^verbatim>\<open>WHERE t.client_id = ?\<close> when the query has a \<open>clientId\<close>.
\<close>

definition task_rows :: "int option \<Rightarrow> db \<Rightarrow> task_view list" where
  "task_rows clientId d =
     [\<lparr>tv_id = i, tv_task = t, tv_client_name = c_name c\<rparr>.
        (i, t) \<leftarrow> tasks d, (j, c) \<leftarrow> clients d, t_client_id t = Some j,
        clientId = None \<or> t_client_id t = clientId]"

text \<open>\<^verbatim>\<open>ORDER BY t.due_date ASC, t.created_at DESC\<close>\<close>

definition task_order :: "task_view \<Rightarrow> task_view \<Rightarrow> bool" where
  "task_order a b =
     (t_due_date (tv_task a) < t_due_date (tv_task b) \<or>
      t_due_date (tv_task a) = t_due_date (tv_task b) \<and>
        t_created_at (tv_task b) \<le> t_created_at (tv_task a))"

definition list_tasks :: "int option \<Rightarrow> db \<Rightarrow> task_view list" where
  "list_tasks clientId d = order_by task_order (task_rows clientId d)"

subsection \<open>\<^verbatim>\<open>GET /api/backup\<close> and \<^verbatim>\<open>POST /api/restore\<close>\<close>

record backup_doc =
  k_clients :: "client table"
  k_services :: "service table"
  k_payments :: "payment table"
  k_tasks :: "task table"
  k_timestamp :: string
  k_version :: string

definition backup :: "string \<Rightarrow> db \<Rightarrow> backup_doc" where
  "backup now d = \<lparr>k_clients = clients d, k_services = services d, k_payments = payments d,
     k_tasks = tasks d, k_timestamp = now, k_version = ''1.0''\<rparr>"

text \<open>\<^verbatim>\<open>DELETE FROM tasks\<close>, \<^verbatim>\<open>DELETE FROM payments\<close>, \<^verbatim>\<open>DELETE FROM services\<close>\<close>

definition delete_tasks :: "db \<Rightarrow> db" where
  "delete_tasks d = d\<lparr>tasks := []\<rparr>"

definition delete_payments :: "db \<Rightarrow> db" where
  "delete_payments d = d\<lparr>payments := []\<rparr>"

definition delete_services :: "db \<Rightarrow> db" where
  "delete_services d = d\<lparr>services := []\<rparr>"

text \<open>\<^verbatim>\<open>DELETE FROM clients\<close>, with the cascade into the child tables.\<close>

definition delete_clients :: "db \<Rightarrow> db" where
  "delete_clients d = cascade (rowids (clients d)) (d\<lparr>clients := []\<rparr>)"

text \<open>The four \<^verbatim>\<open>INSERT\<close>s of a row with its \<open>id\<close>; a rowid in use is refused.\<close>

definition restore_client :: "int \<times> client \<Rightarrow> db \<Rightarrow> sql_error + db" where
  "restore_client r d =
     (if has_rowid (fst r) (clients d) then Inl UniqueKey
      else Inr (d\<lparr>clients := put_row (fst r) (snd r) (clients d),
                 seq_clients := max (seq_clients d) (fst r)\<rparr>))"

definition restore_service :: "int \<times> service \<Rightarrow> db \<Rightarrow> sql_error + db" where
  "restore_service r d =
     (if has_rowid (fst r) (services d) then Inl UniqueKey
      else if \<not> fk_ok (s_client_id (snd r)) d then Inl ForeignKey
      else Inr (d\<lparr>services := put_row (fst r) (snd r) (services d),
                 seq_services := max (seq_services d) (fst r)\<rparr>))"

definition restore_payment :: "int \<times> payment \<Rightarrow> db \<Rightarrow> sql_error + db" where
  "restore_payment r d =
     (if has_rowid (fst r) (payments d) then Inl UniqueKey
      else if \<not> fk_ok (p_client_id (snd r)) d then Inl ForeignKey
      else Inr (d\<lparr>payments := put_row (fst r) (snd r) (payments d),
                 seq_payments := max (seq_payments d) (fst r)\<rparr>))"

definition restore_task :: "int \<times> task \<Rightarrow> db \<Rightarrow> sql_error + db" where
  "restore_task r d =
     (if has_rowid (fst r) (tasks d) then Inl UniqueKey
      else if \<not> fk_ok (t_client_id (snd r)) d then Inl ForeignKey
      else Inr (d\<lparr>tasks := put_row (fst r) (snd r) (tasks d),
                 seq_tasks := max (seq_tasks d) (fst r)\<rparr>))"

definition clear_tables :: "db \<Rightarrow> db" where
  "clear_tables d = delete_clients (delete_services (delete_payments (delete_tasks d)))"

definition restore_body :: "backup_doc \<Rightarrow> db \<Rightarrow> sql_error + unit \<times> db" where
  "restore_body b d =
     (case for_each restore_client (k_clients b) (clear_tables d) of
        Inl e \<Rightarrow> Inl e
      | Inr d1 \<Rightarrow>
     (case for_each restore_service (k_services b) d1 of
        Inl e \<Rightarrow> Inl e
      | Inr d2 \<Rightarrow>
     (case for_each restore_payment (k_payments b) d2 of
        Inl e \<Rightarrow> Inl e
      | Inr d3 \<Rightarrow>
     (case for_each restore_task (k_tasks b) d3 of
        Inl e \<Rightarrow> Inl e
      | Inr d4 \<Rightarrow> Inr ((), d4)))))"

definition restore :: "backup_doc \<Rightarrow> db \<Rightarrow> response \<times> db" where
  "restore b d =
     (case transaction (restore_body b) d of
        (Inl e, d') \<Rightarrow> (ServerError e, d')
      | (Inr u, d') \<Rightarrow> (Success, d'))"

subsection \<open>\<^verbatim>\<open>GET /api/stats\<close>\<close>

text \<open>
  \<^verbatim>\<open>FROM clients c LEFT JOIN payments p ON c.id = p.client_id\<close>: the client of each
  joined row with its payment, or with no payment.
\<close>

definition joined_payments :: "db \<Rightarrow> (client \<times> payment option) list" where
  "joined_payments d =
     concat (map (\<lambda>(i, c). map (\<lambda>p. (c, p)) (left_join_payments i d)) (clients d))"

text \<open>\<^verbatim>\<open>SUM(p.col)\<close>: the sum of the values that are not \<^verbatim>\<open>NULL\<close>, or \<^verbatim>\<open>NULL\<close> when there is none.\<close>

definition sql_sum :: "(payment \<Rightarrow> real option) \<Rightarrow> (client \<times> payment option) list \<Rightarrow> real option" where
  "sql_sum col rows =
     (case List.map_filter (\<lambda>(c, p). Option.bind p col) rows of
        [] \<Rightarrow> None
      | xs \<Rightarrow> Some (sum_list xs))"

text \<open>\<^verbatim>\<open>WHERE c.created_at < ?\<close>: a comparison of text; a \<^verbatim>\<open>NULL\<close> date never passes.\<close>

definition created_before :: "string \<Rightarrow> client \<Rightarrow> bool" where
  "created_before t c = (case c_created_at c of None \<Rightarrow> False | Some s \<Rightarrow> s < t)"

text \<open>\<^verbatim>\<open>x || 0\<close> on an aggregate: \<^verbatim>\<open>null\<close> and \<open>0\<close> give \<open>0\<close>.\<close>

definition or_zero :: "real option \<Rightarrow> real" where
  "or_zero v = (case v of None \<Rightarrow> 0 | Some x \<Rightarrow> if x = 0 then 0 else x)"

text \<open>
  \<open>calculateTrend\<close>. On a number, \<^verbatim>\<open>!prev || prev === 0\<close> says that \<open>prev\<close> is \<open>0\<close>.
  The built-in \<^verbatim>\<open>diff.toFixed(1)\<close> is the argument \<open>toFixed1\<close>.
\<close>

definition calculateTrend :: "(real \<Rightarrow> string) \<Rightarrow> real \<Rightarrow> real \<Rightarrow> string" where
  "calculateTrend toFixed1 current prev =
     (if prev = 0 \<or> prev = 0 then ''+100%''
      else let diff = ((current - prev) / prev) * 100
           in (if diff \<ge> 0 then ''+'' else '''') @ toFixed1 diff @ ''%'')"

record stats_view =
  revenue_value :: real
  revenue_trend :: string
  received_value :: real
  received_trend :: string
  pending_value :: real
  clients_value :: nat

text \<open>The two rows the handler reads: \<open>currentStats\<close> and \<open>prevMonthStats\<close>.\<close>

definition currentStats :: "db \<Rightarrow> real option \<times> real option \<times> real option \<times> nat" where
  "currentStats d =
     (sql_sum p_total_amount (joined_payments d),
      sql_sum p_advance_paid (joined_payments d),
      sql_sum p_remaining_balance (joined_payments d),
      length (joined_payments d))"

definition prevMonthStats :: "string \<Rightarrow> db \<Rightarrow> real option \<times> real option" where
  "prevMonthStats firstDayCurrentMonth d =
     (sql_sum p_total_amount
        (filter (\<lambda>(c, p). created_before firstDayCurrentMonth c) (joined_payments d)),
      sql_sum p_advance_paid
        (filter (\<lambda>(c, p). created_before firstDayCurrentMonth c) (joined_payments d)))"

definition stats :: "(real \<Rightarrow> string) \<Rightarrow> string \<Rightarrow> db \<Rightarrow> stats_view" where
  "stats toFixed1 firstDayCurrentMonth d =
     (case currentStats d of
        (total_revenue, total_received, total_pending, total_clients) \<Rightarrow>
     (case prevMonthStats firstDayCurrentMonth d of
        (prev_revenue, prev_received) \<Rightarrow>
       \<lparr>revenue_value = or_zero total_revenue,
        revenue_trend = calculateTrend toFixed1 (or_zero total_revenue) (or_zero prev_revenue),
        received_value = or_zero total_received,
        received_trend = calculateTrend toFixed1 (or_zero total_received) (or_zero prev_received),
        pending_value = or_zero total_pending,
        clients_value = total_clients\<rparr>))"

subsection \<open>Reachable states\<close>

text \<open>
  What the engine maintains in every table: the rows are kept by strictly increasing
  rowid (a primary key is unique), and every \<open>client_id\<close> is \<^verbatim>\<open>NULL\<close> or names a row
  of \<open>clients\<close> (the foreign keys are enforced).
\<close>

definition sorted_ids :: "'r table \<Rightarrow> bool" where
  "sorted_ids t = sorted_wrt (<) (rowids t)"

definition consistent :: "db \<Rightarrow> bool" where
  "consistent d =
     (sorted_ids (clients d) \<and> sorted_ids (services d) \<and> sorted_ids (payments d) \<and>
      sorted_ids (tasks d) \<and> sorted_ids (transactions d) \<and>
      list_all (\<lambda>(i, s). fk_ok (s_client_id s) d) (services d) \<and>
      list_all (\<lambda>(i, p). fk_ok (p_client_id p) d) (payments d) \<and>
      list_all (\<lambda>(i, t). fk_ok (t_client_id t) d) (tasks d) \<and>
      list_all (\<lambda>(i, x). fk_ok (x_client_id x) d) (transactions d))"

text \<open>
  The states the server can reach from an empty database through its routes that
  write (the arguments of a request are arbitrary).
\<close>

inductive reachable :: "db \<Rightarrow> bool" where
  start: "reachable empty_db"
| post_client: "reachable d \<Longrightarrow> reachable (snd (create_client b now d))"
| patch_client: "reachable d \<Longrightarrow> reachable (snd (update_client c u d))"
| del_client: "reachable d \<Longrightarrow> reachable (snd (delete_client c d))"
| patch_pay: "reachable d \<Longrightarrow> reachable (snd (patch_payment c a amt now d))"
| post_task: "reachable d \<Longrightarrow> reachable (snd (create_task cl ti asg due now d))"
| patch_tsk: "reachable d \<Longrightarrow> reachable (snd (patch_task t st d))"
| del_task: "reachable d \<Longrightarrow> reachable (snd (delete_task t d))"
| post_restore: "reachable d \<Longrightarrow> reachable (snd (restore doc d))"

section \<open>Example states\<close>

definition acme :: client where
  "acme = \<lparr>c_name = ''Acme'', c_email = None, c_phone = None, c_company = Some ''Acme Ltd'',
     c_notes = None, c_managed_by = None, c_status = Some ''active'',
     c_created_at = Some ''2024-01-05 10:00:00''\<rparr>"

definition acme_payment :: payment where
  "acme_payment = \<lparr>p_client_id = Some 1, p_total_amount = Some 1000, p_advance_paid = Some 0,
     p_remaining_balance = Some 1000, p_last_updated = Some ''2024-01-05 10:00:00''\<rparr>"

definition demo_db :: db where
  "demo_db = \<lparr>clients = [(1, acme)],
     services = [(1, \<lparr>s_client_id = Some 1, s_service_type = ''seo'', s_price = Some 0\<rparr>)],
     payments = [(1, acme_payment)], tasks = [], transactions = [],
     seq_clients = 1, seq_services = 1, seq_payments = 1, seq_tasks = 0,
     seq_transactions = 0\<rparr>"


definition two_services :: new_client where
  "two_services = \<lparr>n_name = Some ''Bolt'', n_email = None, n_phone = None, n_company = None,
     n_services = Some [Some ''seo'', Some ''ads''], n_total_amount = 1000,
     n_advance_paid = 400, n_notes = None, n_managed_by = None\<rparr>"

definition null_service :: new_client where
  "null_service = two_services\<lparr>n_services := Some [Some ''seo'', None]\<rparr>"

definition acme_patch :: client_patch where
  "acme_patch = \<lparr>u_name = Some ''Acme'', u_email = Some ''hi@acme.test'', u_phone = None,
     u_company = Some ''Acme Ltd'', u_notes = None,
     u_services = Some [Some ''web'', Some ''ads''], u_managed_by = None\<rparr>"

definition blank_service :: new_client where
  "blank_service = two_services\<lparr>n_services := Some [Some '''']\<rparr>"

definition comma_db :: db where
  "comma_db = demo_db\<lparr>services :=
     [(1, \<lparr>s_client_id = Some 1, s_service_type = ''seo,ads'', s_price = Some 0\<rparr>),
      (2, \<lparr>s_client_id = Some 1, s_service_type = ''web'', s_price = Some 0\<rparr>)],
     seq_services := 2\<rparr>"

definition errand :: task where
  "errand = \<lparr>t_client_id = Some 1, t_title = ''Call back'', t_assigned_to = None,
     t_due_date = None, t_status = Some ''pending'',
     t_created_at = Some ''2024-04-02 09:00:00''\<rparr>"

definition tasks_db :: db where
  "tasks_db = demo_db\<lparr>tasks :=
     [(1, errand\<lparr>t_title := ''Invoice'', t_due_date := Some ''2024-05-01'',
                 t_created_at := Some ''2024-04-01 09:00:00''\<rparr>),
      (2, errand),
      (3, errand\<lparr>t_title := ''Report'', t_due_date := Some ''2024-05-01'',
                 t_created_at := Some ''2024-04-03 09:00:00''\<rparr>)],
     seq_tasks := 3\<rparr>"

definition paid_db :: db where
  "paid_db = snd (patch_payment 1 400 (Some 400) ''2024-02-01 09:00:00'' demo_db)"

section \<open>Properties of the engine\<close>

lemma fold_max_ge: "(s::int) \<le> fold max xs s"
  by (induction xs arbitrary: s) (auto intro: order_trans[OF max.cobounded2])

lemma fold_max_mem: "(x::int) \<in> set xs \<Longrightarrow> x \<le> fold max xs s"
proof (induction xs arbitrary: s)
  case Nil
  then show ?case by simp
next
  case (Cons a xs)
  show ?case
  proof (cases "x = a")
    case True
    have "max a s \<le> fold max xs (max a s)" by (rule fold_max_ge)
    with True show ?thesis by simp
  next
    case False
    with Cons show ?thesis by simp
  qed
qed

lemma next_rowid_fresh: "i \<in> set (rowids t) \<Longrightarrow> i < next_rowid s t"
  using fold_max_mem[of i "rowids t" s] by (simp add: next_rowid_def)

lemma insort_key_last:
  "\<forall>y \<in> set t. fst y < i \<Longrightarrow> insort_key fst (i, r) t = t @ [(i, r)]"
  by (induction t) auto

lemma put_row_next: "put_row (next_rowid s t) r t = t @ [(next_rowid s t, r)]"
  unfolding put_row_def
  by (rule insort_key_last) (force simp: rowids_def intro!: next_rowid_fresh)

lemma select_payment_Some:
  "select_payment cid d = Some (i, pay) \<Longrightarrow> (i, pay) \<in> set (payments d) \<and> p_client_id pay = Some cid"
  unfolding select_payment_def
  by (auto simp: find_Some_iff in_set_conv_nth)

lemma select_payment_None:
  "select_payment cid d = None \<longleftrightarrow> (\<forall>(i, p) \<in> set (payments d). p_client_id p \<noteq> Some cid)"
  unfolding select_payment_def by (auto simp: find_None_iff)

lemma consistent_payment_client:
  "consistent d \<Longrightarrow> (i, pay) \<in> set (payments d) \<Longrightarrow> p_client_id pay = Some cid \<Longrightarrow> fk_ok (Some cid) d"
  by (auto simp: consistent_def list_all_iff)

lemma fk_ok_update_payments [simp]: "fk_ok c (update_payments a r now cid d) = fk_ok c d"
  by (simp add: fk_ok_def update_payments_def split: option.splits)



section \<open>Payments\<close>

lemma transaction_updatePayment:
  assumes "fk_ok (Some cid) d" and "to_number (p_total_amount pay) = T"
  shows "transaction (updatePayment pay A amt now cid) d =
     (Inr (), case amt of
        None \<Rightarrow> update_payments A (T - A) now cid d
      | Some a \<Rightarrow> if 0 < a
          then (update_payments A (T - A) now cid d)\<lparr>
             transactions := transactions d @
               [(next_rowid (seq_transactions d) (transactions d),
                 \<lparr>x_client_id = Some cid, x_amount = a, x_type = Some ''payment'',
                  x_created_at = Some now\<rparr>)],
             seq_transactions := next_rowid (seq_transactions d) (transactions d)\<rparr>
          else update_payments A (T - A) now cid d)"
proof -
  let ?d1 = "update_payments A (T - A) now cid d"
  have fk: "fk_ok (Some cid) ?d1" using assms(1) by simp
  have tx: "transactions ?d1 = transactions d" "seq_transactions ?d1 = seq_transactions d"
    by (simp_all add: update_payments_def)
  show ?thesis
    using fk tx
    by (cases amt) (simp_all add: transaction_def updatePayment_def insert_transaction_def
        put_row_next Let_def assms(2))
qed

lemma patch_payment_atomic:
  "fst (patch_payment cid A amt now d) \<noteq> Success \<Longrightarrow> snd (patch_payment cid A amt now d) = d"
  by (auto simp: patch_payment_def transaction_def split: option.splits sum.splits prod.splits)


lemma patch_payment_effect:
  assumes "consistent d"
    and "select_payment cid d = Some (i, pay)"
    and "p_total_amount pay = Some T"
  shows "\<exists>d'. patch_payment cid A amount_added now d = (Success, d') \<and>
     payments d' = map (\<lambda>(j, p). if p_client_id p = Some cid
         then (j, p\<lparr>p_advance_paid := Some A, p_remaining_balance := Some (T - A),
                    p_last_updated := Some now\<rparr>)
         else (j, p)) (payments d) \<and>
     (i, pay\<lparr>p_advance_paid := Some A, p_remaining_balance := Some (T - A),
             p_last_updated := Some now\<rparr>) \<in> set (payments d') \<and>
     map (\<lambda>(j, p). (j, p_client_id p, p_total_amount p)) (payments d') =
       map (\<lambda>(j, p). (j, p_client_id p, p_total_amount p)) (payments d) \<and>
     transactions d' =
       (case amount_added of
          None \<Rightarrow> transactions d
        | Some a \<Rightarrow> if 0 < a
            then transactions d @
              [(next_rowid (seq_transactions d) (transactions d),
                \<lparr>x_client_id = Some cid, x_amount = a, x_type = Some ''payment'',
                 x_created_at = Some now\<rparr>)]
            else transactions d) \<and>
     clients d' = clients d \<and> services d' = services d \<and> tasks d' = tasks d"
proof -
  from assms(2) have mem: "(i, pay) \<in> set (payments d)" and cl: "p_client_id pay = Some cid"
    using select_payment_Some by blast+
  from assms(1) mem cl have fk: "fk_ok (Some cid) d"
    by (rule consistent_payment_client)
  have num: "to_number (p_total_amount pay) = T"
    using assms(3) by (simp add: to_number_def)
  let ?f = "\<lambda>(j, p). if p_client_id p = Some cid
         then (j, p\<lparr>p_advance_paid := Some A, p_remaining_balance := Some (T - A),
                    p_last_updated := Some now\<rparr>)
         else (j, p)"
  have in_map: "?f (i, pay) \<in> set (map ?f (payments d))"
    using mem by (simp only: set_map) (rule imageI)
  have keep: "map (\<lambda>(j, p). (j, p_client_id p, p_total_amount p)) (map ?f (payments d)) =
       map (\<lambda>(j, p). (j, p_client_id p, p_total_amount p)) (payments d)"
    by (induction "payments d") (auto split: prod.splits)
  let ?d1 = "update_payments A (T - A) now cid d"
  let ?row = "(next_rowid (seq_transactions d) (transactions d),
                \<lparr>x_client_id = Some cid, x_amount = the amount_added, x_type = Some ''payment'',
                 x_created_at = Some now\<rparr>)"
  let ?d2 = "case amount_added of None \<Rightarrow> ?d1
     | Some a \<Rightarrow> if 0 < a then ?d1\<lparr>transactions := transactions d @ [?row],
          seq_transactions := next_rowid (seq_transactions d) (transactions d)\<rparr> else ?d1"
  have res: "patch_payment cid A amount_added now d = (Success, ?d2)"
    by (cases amount_added)
       (simp_all add: patch_payment_def assms(2) transaction_updatePayment[OF fk num])
  have pay: "payments ?d2 = map ?f (payments d)"
    by (cases amount_added) (simp_all add: update_payments_def)
  have tx: "transactions ?d2 = (case amount_added of None \<Rightarrow> transactions d
        | Some a \<Rightarrow> if 0 < a then transactions d @
              [(next_rowid (seq_transactions d) (transactions d),
                \<lparr>x_client_id = Some cid, x_amount = a, x_type = Some ''payment'',
                 x_created_at = Some now\<rparr>)] else transactions d)"
    by (cases amount_added) (simp_all add: update_payments_def)
  have rest: "clients ?d2 = clients d \<and> services ?d2 = services d \<and> tasks ?d2 = tasks d"
    by (cases amount_added) (simp_all add: update_payments_def)
  have row: "(i, pay\<lparr>p_advance_paid := Some A, p_remaining_balance := Some (T - A),
             p_last_updated := Some now\<rparr>) \<in> set (payments ?d2)"
    using in_map cl unfolding pay by simp
  have keep': "map (\<lambda>(j, p). (j, p_client_id p, p_total_amount p)) (payments ?d2) =
       map (\<lambda>(j, p). (j, p_client_id p, p_total_amount p)) (payments d)"
    unfolding pay by (rule keep)
  from res pay row keep' tx rest show ?thesis by blast
qed


text \<open>
  C1. \<^verbatim>\<open>PATCH /api/payments/:clientId\<close> changes the database in one transaction: it
  answers \<open>{success:true}\<close> or leaves every table as it was. For a client whose payment
  row (the one the handler looks up) has \<open>total_amount = T\<close>, with the absolute value
  \<open>advance_paid = A\<close>, in a consistent database, it answers \<open>{success:true}\<close>; it sets
  \<open>advance_paid\<close> to \<open>A\<close>, \<open>remaining_balance\<close> to \<open>T - A\<close> and \<open>last_updated\<close> to now
  in the payment rows of that client, leaves every rowid, \<open>client_id\<close> and
  \<open>total_amount\<close> of the table as it was, and appends exactly one ledger row with
  the amount and the default type \<open>payment\<close> when \<open>amount_added\<close> is supplied and
  strictly positive, and no ledger row otherwise; the other tables are untouched.
\<close>

theorem patch_payment_balance:
  "(case fst (patch_payment cid A amount_added now d) of
      Success \<Rightarrow> True
    | r \<Rightarrow> snd (patch_payment cid A amount_added now d) = d) \<and>
   (consistent d \<and> select_payment cid d = Some (i, pay) \<and> p_total_amount pay = Some T \<longrightarrow>
     (\<exists>d'. patch_payment cid A amount_added now d = (Success, d') \<and>
       payments d' = map (\<lambda>(j, p). if p_client_id p = Some cid
           then (j, p\<lparr>p_advance_paid := Some A, p_remaining_balance := Some (T - A),
                      p_last_updated := Some now\<rparr>)
           else (j, p)) (payments d) \<and>
       (i, pay\<lparr>p_advance_paid := Some A, p_remaining_balance := Some (T - A),
               p_last_updated := Some now\<rparr>) \<in> set (payments d') \<and>
       map (\<lambda>(j, p). (j, p_client_id p, p_total_amount p)) (payments d') =
         map (\<lambda>(j, p). (j, p_client_id p, p_total_amount p)) (payments d) \<and>
       transactions d' =
         (case amount_added of
            None \<Rightarrow> transactions d
          | Some a \<Rightarrow> if 0 < a
              then transactions d @
                [(next_rowid (seq_transactions d) (transactions d),
                  \<lparr>x_client_id = Some cid, x_amount = a, x_type = Some ''payment'',
                   x_created_at = Some now\<rparr>)]
              else transactions d) \<and>
       clients d' = clients d \<and> services d' = services d \<and> tasks d' = tasks d))"
proof (intro conjI impI)
  show "case fst (patch_payment cid A amount_added now d) of
      Success \<Rightarrow> True
    | r \<Rightarrow> snd (patch_payment cid A amount_added now d) = d"
    using patch_payment_atomic[of cid A amount_added now d]
    by (cases "fst (patch_payment cid A amount_added now d)") simp_all
next
  assume "consistent d \<and> select_payment cid d = Some (i, pay) \<and> p_total_amount pay = Some T"
  then have "consistent d" "select_payment cid d = Some (i, pay)" "p_total_amount pay = Some T"
    by simp_all
  then show "\<exists>d'. patch_payment cid A amount_added now d = (Success, d') \<and>
       payments d' = map (\<lambda>(j, p). if p_client_id p = Some cid
           then (j, p\<lparr>p_advance_paid := Some A, p_remaining_balance := Some (T - A),
                      p_last_updated := Some now\<rparr>)
           else (j, p)) (payments d) \<and>
       (i, pay\<lparr>p_advance_paid := Some A, p_remaining_balance := Some (T - A),
               p_last_updated := Some now\<rparr>) \<in> set (payments d') \<and>
       map (\<lambda>(j, p). (j, p_client_id p, p_total_amount p)) (payments d') =
         map (\<lambda>(j, p). (j, p_client_id p, p_total_amount p)) (payments d) \<and>
       transactions d' =
         (case amount_added of
            None \<Rightarrow> transactions d
          | Some a \<Rightarrow> if 0 < a
              then transactions d @
                [(next_rowid (seq_transactions d) (transactions d),
                  \<lparr>x_client_id = Some cid, x_amount = a, x_type = Some ''payment'',
                   x_created_at = Some now\<rparr>)]
              else transactions d) \<and>
       clients d' = clients d \<and> services d' = services d \<and> tasks d' = tasks d"
    by (rule patch_payment_effect)
qed

theorem patch_payment_balance_witness:
  "consistent demo_db \<and> select_payment 1 demo_db = Some (1, acme_payment) \<and>
   p_total_amount acme_payment = Some 1000 \<and>
   (\<exists>d'. patch_payment 1 400 (Some 400) ''2024-02-01 09:00:00'' demo_db = (Success, d') \<and>
      payments d' = [(1, acme_payment\<lparr>p_advance_paid := Some 400,
         p_remaining_balance := Some 600, p_last_updated := Some ''2024-02-01 09:00:00''\<rparr>)] \<and>
      transactions d' = [(1, \<lparr>x_client_id = Some 1, x_amount = 400, x_type = Some ''payment'',
         x_created_at = Some ''2024-02-01 09:00:00''\<rparr>)])"
proof -
  have c: "consistent demo_db"
    by (simp add: consistent_def sorted_ids_def rowids_def demo_db_def fk_ok_def has_rowid_def
        acme_payment_def)
  have s: "select_payment 1 demo_db = Some (1, acme_payment)"
    by (simp add: select_payment_def demo_db_def acme_payment_def)
  have t: "p_total_amount acme_payment = Some 1000"
    by (simp add: acme_payment_def)
  note patch_payment_balance[where cid = 1 and A = 400 and amount_added = "Some 400"
      and now = "''2024-02-01 09:00:00''" and d = demo_db and i = 1 and pay = acme_payment
      and T = 1000, THEN conjunct2, rule_format, OF conjI[OF c conjI[OF s t]]]
  then obtain d' where r: "patch_payment 1 400 (Some 400) ''2024-02-01 09:00:00'' demo_db = (Success, d')"
    and p: "payments d' = map (\<lambda>(j, p). if p_client_id p = Some 1
         then (j, p\<lparr>p_advance_paid := Some 400, p_remaining_balance := Some (1000 - 400),
                    p_last_updated := Some ''2024-02-01 09:00:00''\<rparr>)
         else (j, p)) (payments demo_db)"
    and x: "transactions d' = transactions demo_db @
              [(next_rowid (seq_transactions demo_db) (transactions demo_db),
                \<lparr>x_client_id = Some 1, x_amount = 400, x_type = Some ''payment'',
                 x_created_at = Some ''2024-02-01 09:00:00''\<rparr>)]"
    by auto
  have p': "payments d' = [(1, acme_payment\<lparr>p_advance_paid := Some 400,
         p_remaining_balance := Some 600, p_last_updated := Some ''2024-02-01 09:00:00''\<rparr>)]"
    using p by (simp add: demo_db_def acme_payment_def)
  have x': "transactions d' = [(1, \<lparr>x_client_id = Some 1, x_amount = 400, x_type = Some ''payment'',
         x_created_at = Some ''2024-02-01 09:00:00''\<rparr>)]"
    using x by (simp add: demo_db_def next_rowid_def rowids_def)
  from c s t r p' x' show ?thesis by blast
qed

lemma demo_db_consistent: "consistent demo_db"
  by (simp add: consistent_def sorted_ids_def rowids_def demo_db_def fk_ok_def has_rowid_def
      acme_payment_def)

lemma select_payment_exists:
  "select_payment cid d \<noteq> None \<longleftrightarrow> (\<exists>(j, p) \<in> set (payments d). p_client_id p = Some cid)"
  using select_payment_None[of cid d] by auto

lemma patch_payment_found:
  assumes "consistent d" and "select_payment cid d = Some (i, pay)"
  shows "fst (patch_payment cid A amt now d) = Success"
proof -
  from assms(2) have "(i, pay) \<in> set (payments d)" and "p_client_id pay = Some cid"
    using select_payment_Some by blast+
  with assms(1) have fk: "fk_ok (Some cid) d"
    by (blast intro: consistent_payment_client)
  show ?thesis
    by (simp add: patch_payment_def assms(2) transaction_updatePayment[OF fk refl])
qed

text \<open>
  C7. \<^verbatim>\<open>PATCH /api/payments/:clientId\<close> answers 404 exactly when the \<open>payments\<close> table
  has no row for the client id; then the database is left as it was. When a row
  exists, in a consistent database, the answer is \<open>{success:true}\<close>.
\<close>

theorem patch_payment_not_found:
  "(fst (patch_payment cid A amt now d) = NotFound \<longleftrightarrow>
      \<not> (\<exists>(j, p) \<in> set (payments d). p_client_id p = Some cid)) \<and>
   (\<not> (\<exists>(j, p) \<in> set (payments d). p_client_id p = Some cid) \<longrightarrow>
      snd (patch_payment cid A amt now d) = d) \<and>
   (consistent d \<and> (\<exists>(j, p) \<in> set (payments d). p_client_id p = Some cid) \<longrightarrow>
      fst (patch_payment cid A amt now d) = Success)"
proof (cases "select_payment cid d")
  case None
  then have no: "\<not> (\<exists>(j, p) \<in> set (payments d). p_client_id p = Some cid)"
    using select_payment_exists[of cid d] by simp
  from None have "patch_payment cid A amt now d = (NotFound, d)"
    by (simp add: patch_payment_def)
  with no show ?thesis by simp
next
  case (Some r)
  obtain i pay where r: "r = (i, pay)" by (cases r)
  from Some have ex: "\<exists>(j, p) \<in> set (payments d). p_client_id p = Some cid"
    using select_payment_exists[of cid d] by simp
  have nf: "fst (patch_payment cid A amt now d) \<noteq> NotFound"
    using Some r
    by (simp add: patch_payment_def split: prod.splits sum.splits)
  have ok: "consistent d \<Longrightarrow> fst (patch_payment cid A amt now d) = Success"
    using Some r by (simp add: patch_payment_found)
  from ex nf ok show ?thesis by blast
qed

theorem patch_payment_not_found_witness:
  "fst (patch_payment 7 400 (Some 400) ''2024-02-01 09:00:00'' demo_db) = NotFound \<and>
   snd (patch_payment 7 400 (Some 400) ''2024-02-01 09:00:00'' demo_db) = demo_db \<and>
   consistent demo_db \<and>
   fst (patch_payment 1 400 (Some 400) ''2024-02-01 09:00:00'' demo_db) = Success"
proof -
  note c = demo_db_consistent
  have no: "\<not> (\<exists>(j, p) \<in> set (payments demo_db). p_client_id p = Some 7)"
    by (simp add: demo_db_def acme_payment_def)
  have yes: "\<exists>(j, p) \<in> set (payments demo_db). p_client_id p = Some 1"
    by (simp add: demo_db_def acme_payment_def)
  from patch_payment_not_found[of 7 400 "Some 400" "''2024-02-01 09:00:00''" demo_db] no
  have a: "fst (patch_payment 7 400 (Some 400) ''2024-02-01 09:00:00'' demo_db) = NotFound"
    and b: "snd (patch_payment 7 400 (Some 400) ''2024-02-01 09:00:00'' demo_db) = demo_db"
    by blast+
  from patch_payment_not_found[of 1 400 "Some 400" "''2024-02-01 09:00:00''" demo_db] c yes
  have s: "fst (patch_payment 1 400 (Some 400) ''2024-02-01 09:00:00'' demo_db) = Success"
    by blast
  from a b c s show ?thesis by blast
qed

section \<open>Sorting and the client list\<close>

lemma set_insert_by [simp]: "set (insert_by le x xs) = insert x (set xs)"
  by (induction xs) auto

lemma set_order_by [simp]: "set (order_by le xs) = set xs"
  by (induction xs) (simp_all add: order_by_def)

lemma length_insert_by [simp]: "length (insert_by le x xs) = Suc (length xs)"
  by (induction xs) auto

lemma length_order_by [simp]: "length (order_by le xs) = length xs"
  by (induction xs) (simp_all add: order_by_def)

lemma no_elems_Nil: "(\<And>v. v \<in> set xs \<Longrightarrow> False) \<Longrightarrow> xs = []"
  by (cases xs) auto

lemma client_rows_ids: "v \<in> set (client_rows d) \<Longrightarrow> has_rowid (v_id v) (clients d)"
  by (force simp: client_rows_def has_rowid_def rowids_def)

lemma list_clients_ids: "v \<in> set (list_clients d) \<Longrightarrow> has_rowid (v_id v) (clients d)"
  by (simp add: list_clients_def client_rows_ids)

lemma list_clients_services:
  "v \<in> set (list_clients d) \<Longrightarrow>
   v_services v = services_field (group_concat (service_types (v_id v) d))"
  by (auto simp: list_clients_def client_rows_def)

section \<open>Deleting a client\<close>

lemma delete_client_row_tables:
  assumes "has_rowid c (clients d)"
  shows "clients (delete_client_row c d) = filter (\<lambda>(i, r). i \<noteq> c) (clients d)"
    and "services (delete_client_row c d) = filter (\<lambda>(i, s). s_client_id s \<noteq> Some c) (services d)"
    and "payments (delete_client_row c d) = filter (\<lambda>(i, p). p_client_id p \<noteq> Some c) (payments d)"
    and "tasks (delete_client_row c d) = filter (\<lambda>(i, t). t_client_id t \<noteq> Some c) (tasks d)"
    and "transactions (delete_client_row c d) =
           filter (\<lambda>(i, x). x_client_id x \<noteq> Some c) (transactions d)"
proof -
  have gone: "set (filter (\<lambda>i. i = c) (rowids (clients d))) = {c}"
    using assms by (auto simp: has_rowid_def)
  have sv: "survives (filter (\<lambda>i. i = c) (rowids (clients d))) k \<longleftrightarrow> k \<noteq> Some c" for k
    using assms by (cases k) (auto simp: survives_def has_rowid_def)
  show "clients (delete_client_row c d) = filter (\<lambda>(i, r). i \<noteq> c) (clients d)"
    by (simp add: delete_client_row_def cascade_def)
  show "services (delete_client_row c d) = filter (\<lambda>(i, s). s_client_id s \<noteq> Some c) (services d)"
    by (simp add: delete_client_row_def cascade_def sv)
  show "payments (delete_client_row c d) = filter (\<lambda>(i, p). p_client_id p \<noteq> Some c) (payments d)"
    by (simp add: delete_client_row_def cascade_def sv)
  show "tasks (delete_client_row c d) = filter (\<lambda>(i, t). t_client_id t \<noteq> Some c) (tasks d)"
    by (simp add: delete_client_row_def cascade_def sv)
  show "transactions (delete_client_row c d) =
           filter (\<lambda>(i, x). x_client_id x \<noteq> Some c) (transactions d)"
    by (simp add: delete_client_row_def cascade_def sv)
qed

lemma task_rows_client:
  "v \<in> set (task_rows (Some c) d) \<Longrightarrow> \<exists>(i, t) \<in> set (tasks d). t_client_id t = Some c"
  by (auto simp: task_rows_def)

text \<open>
  C2. After \<^verbatim>\<open>DELETE /api/clients/:id\<close> for a client \<open>c\<close> (answered 204), \<open>c\<close> is no
  element of \<^verbatim>\<open>GET /api/clients\<close>, the \<open>clients\<close> table has no row with that id, no
  row of \<open>services\<close>, \<open>payments\<close> or \<open>tasks\<close> has \<open>client_id = c\<close>, and
  \<^verbatim>\<open>GET /api/tasks?clientId=c\<close> is empty.
\<close>

theorem delete_client_cascades:
  assumes "has_rowid c (clients d)"
  shows "fst (delete_client c d) = NoContent \<and>
     c \<notin> v_id ` set (list_clients (snd (delete_client c d))) \<and>
     \<not> has_rowid c (clients (snd (delete_client c d))) \<and>
     \<not> (\<exists>(i, s) \<in> set (services (snd (delete_client c d))). s_client_id s = Some c) \<and>
     \<not> (\<exists>(i, p) \<in> set (payments (snd (delete_client c d))). p_client_id p = Some c) \<and>
     \<not> (\<exists>(i, t) \<in> set (tasks (snd (delete_client c d))). t_client_id t = Some c) \<and>
     list_tasks (Some c) (snd (delete_client c d)) = []"
proof -
  let ?d' = "delete_client_row c d"
  have d': "delete_client c d = (NoContent, ?d')"
    by (simp add: delete_client_def)
  have no_client: "\<not> has_rowid c (clients ?d')"
    by (auto simp: delete_client_row_tables(1)[OF assms] has_rowid_def rowids_def)
  have no_view: "c \<notin> v_id ` set (list_clients ?d')"
    using no_client list_clients_ids by blast
  have no_serv: "\<not> (\<exists>(i, s) \<in> set (services ?d'). s_client_id s = Some c)"
    by (auto simp: delete_client_row_tables(2)[OF assms])
  have no_pay: "\<not> (\<exists>(i, p) \<in> set (payments ?d'). p_client_id p = Some c)"
    by (auto simp: delete_client_row_tables(3)[OF assms])
  have no_task: "\<not> (\<exists>(i, t) \<in> set (tasks ?d'). t_client_id t = Some c)"
    by (auto simp: delete_client_row_tables(4)[OF assms])
  have no_list: "list_tasks (Some c) ?d' = []"
  proof (rule no_elems_Nil)
    fix v assume "v \<in> set (list_tasks (Some c) ?d')"
    then have "v \<in> set (task_rows (Some c) ?d')" by (simp add: list_tasks_def)
    with no_task task_rows_client show False by blast
  qed
  show ?thesis
    unfolding d' fst_conv snd_conv
    by (intro conjI refl no_client no_view no_serv no_pay no_task no_list)
qed

theorem delete_client_cascades_witness:
  "has_rowid 1 (clients demo_db) \<and>
   delete_client 1 demo_db = (NoContent, demo_db\<lparr>clients := [], services := [], payments := []\<rparr>) \<and>
   1 \<notin> v_id ` set (list_clients (snd (delete_client 1 demo_db))) \<and>
   list_tasks (Some 1) (snd (delete_client 1 demo_db)) = []"
proof -
  have h: "has_rowid 1 (clients demo_db)"
    by (simp add: has_rowid_def rowids_def demo_db_def)
  have e: "delete_client 1 demo_db =
      (NoContent, demo_db\<lparr>clients := [], services := [], payments := []\<rparr>)"
    by (simp add: delete_client_def delete_client_row_def cascade_def survives_def rowids_def
        demo_db_def acme_payment_def)
  from delete_client_cascades[OF h]
  have n: "1 \<notin> v_id ` set (list_clients (snd (delete_client 1 demo_db)))"
    and l: "list_tasks (Some 1) (snd (delete_client 1 demo_db)) = []"
    by simp_all
  show ?thesis by (intro conjI h e n l)
qed

section \<open>Creating a client\<close>

lemma next_rowid_not_in: "\<not> has_rowid (next_rowid s t) t"
  using next_rowid_fresh[of "next_rowid s t" t s] by (auto simp: has_rowid_def)

lemma insert_service_Some:
  assumes "fk_ok (Some cid) d"
  shows "insert_service cid (Some s) d =
     Inr (d\<lparr>services := services d @
              [(next_rowid (seq_services d) (services d),
                \<lparr>s_client_id = Some cid, s_service_type = s, s_price = Some 0\<rparr>)],
            seq_services := next_rowid (seq_services d) (services d)\<rparr>)"
  using assms by (simp add: insert_service_def put_row_next Let_def)

text \<open>The loop over \<open>services\<close>: one row per element, appended in order, nothing else touched.\<close>

lemma for_each_insert_service:
  assumes "fk_ok (Some cid) d"
  shows "\<exists>ids sq. length ids = length ss \<and>
     for_each (insert_service cid) (map Some ss) d =
       Inr (d\<lparr>services := services d @
                zip ids (map (\<lambda>s. \<lparr>s_client_id = Some cid, s_service_type = s,
                                    s_price = Some 0\<rparr>) ss),
              seq_services := sq\<rparr>)"
  using assms
proof (induction ss arbitrary: d)
  case Nil
  have "for_each (insert_service cid) (map Some []) d =
      Inr (d\<lparr>services := services d @ zip [] (map (\<lambda>s. \<lparr>s_client_id = Some cid,
        s_service_type = s, s_price = Some 0\<rparr>) []), seq_services := seq_services d\<rparr>)"
    by simp
  then show ?case by (metis length_0_conv list.size(3))
next
  case (Cons s ss)
  let ?i = "next_rowid (seq_services d) (services d)"
  let ?row = "\<lambda>s. \<lparr>s_client_id = Some cid, s_service_type = s, s_price = Some 0\<rparr>"
  let ?d1 = "d\<lparr>services := services d @ [(?i, ?row s)], seq_services := ?i\<rparr>"
  have step: "insert_service cid (Some s) d = Inr ?d1"
    by (rule insert_service_Some[OF Cons.prems])
  have fk1: "fk_ok (Some cid) ?d1"
    using Cons.prems by (simp add: fk_ok_def)
  from Cons.IH[OF fk1] obtain ids sq where len: "length ids = length ss"
    and run: "for_each (insert_service cid) (map Some ss) ?d1 =
       Inr (?d1\<lparr>services := services ?d1 @ zip ids (map ?row ss), seq_services := sq\<rparr>)"
    by blast
  have "for_each (insert_service cid) (map Some (s # ss)) d =
      Inr (d\<lparr>services := services d @ zip (?i # ids) (map ?row (s # ss)), seq_services := sq\<rparr>)"
    using step run by simp
  moreover have "length (?i # ids) = length (s # ss)" using len by simp
  ultimately show ?case by blast
qed

lemma for_each_None:
  "None \<in> set ss \<Longrightarrow> \<exists>e. for_each (insert_service cid) ss d = Inl e"
proof (induction ss arbitrary: d)
  case Nil
  then show ?case by simp
next
  case (Cons s ss)
  show ?case
  proof (cases "insert_service cid s d")
    case (Inl e)
    then show ?thesis by simp
  next
    case (Inr d1)
    then have "s \<noteq> None" by (cases s) (simp_all add: insert_service_def)
    with Cons.prems have "None \<in> set ss" by auto
    from Cons.IH[OF this, of d1] Inr show ?thesis by simp
  qed
qed

lemma transaction_rollback: "fst (transaction body d) = Inl e \<Longrightarrow> snd (transaction body d) = d"
  by (auto simp: transaction_def split: sum.splits prod.splits)

lemma create_client_atomic:
  "(case fst (create_client b now d) of Created i \<Rightarrow> True | r \<Rightarrow> snd (create_client b now d) = d)"
  by (auto simp: create_client_def transaction_def split: sum.splits prod.splits)

lemma consistent_no_child:
  assumes "consistent d" and "\<not> has_rowid cid (clients d)"
  shows "filter (\<lambda>(i, s). s_client_id s = Some cid) (services d) = []"
    and "filter (\<lambda>(i, p). p_client_id p = Some cid) (payments d) = []"
    and "filter (\<lambda>(i, s). s_client_id s \<noteq> Some cid) (services d) = services d"
    and "filter (\<lambda>(i, p). p_client_id p \<noteq> Some cid) (payments d) = payments d"
  using assms
  by (auto simp: consistent_def list_all_iff fk_ok_def filter_empty_conv filter_id_conv)

lemma filter_zip_rows:
  assumes "length ids = length ss"
  shows "filter (\<lambda>(i, s). s_client_id s = Some cid)
           (zip ids (map (\<lambda>s. \<lparr>s_client_id = Some cid, s_service_type = s, s_price = p\<rparr>) ss)) =
         zip ids (map (\<lambda>s. \<lparr>s_client_id = Some cid, s_service_type = s, s_price = p\<rparr>) ss)"
    and "filter (\<lambda>(i, s). s_client_id s \<noteq> Some cid)
           (zip ids (map (\<lambda>s. \<lparr>s_client_id = Some cid, s_service_type = s, s_price = p\<rparr>) ss)) = []"
    and "map (\<lambda>(i, s). s_service_type s)
           (zip ids (map (\<lambda>s. \<lparr>s_client_id = Some cid, s_service_type = s, s_price = p\<rparr>) ss)) = ss"
  using assms by (induction ids ss rule: list_induct2) simp_all


lemma insert_client_Some:
  "insert_client (Some nm) em ph co nt mb now d =
     Inr (next_rowid (seq_clients d) (clients d),
          d\<lparr>clients := clients d @
               [(next_rowid (seq_clients d) (clients d),
                 \<lparr>c_name = nm, c_email = em, c_phone = ph, c_company = co, c_notes = nt,
                  c_managed_by = mb, c_status = Some ''active'', c_created_at = Some now\<rparr>)],
             seq_clients := next_rowid (seq_clients d) (clients d)\<rparr>)"
  by (simp add: insert_client_def put_row_next Let_def)

lemma insert_payment_ok:
  assumes "fk_ok (Some cid) d"
  shows "insert_payment cid tot adv rem now d =
     Inr (d\<lparr>payments := payments d @
              [(next_rowid (seq_payments d) (payments d),
                \<lparr>p_client_id = Some cid, p_total_amount = Some tot, p_advance_paid = Some adv,
                 p_remaining_balance = Some rem, p_last_updated = Some now\<rparr>)],
            seq_payments := next_rowid (seq_payments d) (payments d)\<rparr>)"
  using assms by (simp add: insert_payment_def put_row_next Let_def)




section \<open>Updating a client\<close>

lemma update_client_atomic:
  "(case fst (update_client c b d) of Success \<Rightarrow> True | r \<Rightarrow> snd (update_client c b d) = d)"
  by (auto simp: update_client_def transaction_def split: sum.splits prod.splits)

text \<open>
  C6. \<^verbatim>\<open>PATCH /api/clients/:id\<close> runs in one transaction (it answers
  \<open>{success:true}\<close> or leaves the database as it was). For an existing client, with a
  name and a services list in the body, it answers \<open>{success:true}\<close>; afterwards the
  service rows of that client are exactly the supplied list, in order, whatever
  they were before, so that the \<open>services\<close> field of that client in
  \<^verbatim>\<open>GET /api/clients\<close> is computed from the supplied list alone; the service rows of
  the other clients, the payments, the tasks and the ledger are as before.
\<close>

theorem update_client_replaces_services:
  "(case fst (update_client c b d) of Success \<Rightarrow> True | r \<Rightarrow> snd (update_client c b d) = d) \<and>
   (has_rowid c (clients d) \<and> u_name b = Some nm \<and> u_services b = Some (map Some ss) \<longrightarrow>
     (\<exists>ids d'.
        update_client c b d = (Success, d') \<and>
        length ids = length ss \<and>
        filter (\<lambda>(i, s). s_client_id s = Some c) (services d') =
          zip ids (map (\<lambda>s. \<lparr>s_client_id = Some c, s_service_type = s, s_price = Some 0\<rparr>) ss) \<and>
        service_types c d' = ss \<and>
        (\<forall>v \<in> set (list_clients d').
           v_id v = c \<longrightarrow> v_services v = services_field (group_concat ss)) \<and>
        filter (\<lambda>(i, s). s_client_id s \<noteq> Some c) (services d') =
          filter (\<lambda>(i, s). s_client_id s \<noteq> Some c) (services d) \<and>
        rowids (clients d') = rowids (clients d) \<and>
        payments d' = payments d \<and> tasks d' = tasks d \<and> transactions d' = transactions d))"
proof (intro conjI impI)
  show "case fst (update_client c b d) of Success \<Rightarrow> True | r \<Rightarrow> snd (update_client c b d) = d"
    by (rule update_client_atomic)
next
  assume "has_rowid c (clients d) \<and> u_name b = Some nm \<and> u_services b = Some (map Some ss)"
  then have ex: "has_rowid c (clients d)" and nm: "u_name b = Some nm"
    and sv: "u_services b = Some (map Some ss)" by simp_all
  let ?upd = "\<lambda>(i, r). if i = c
                 then (i, r\<lparr>c_name := nm, c_email := u_email b, c_phone := u_phone b,
                            c_company := u_company b, c_notes := u_notes b,
                            c_managed_by := u_managed_by b\<rparr>)
                 else (i, r)"
  let ?d1 = "d\<lparr>clients := map ?upd (clients d)\<rparr>"
  let ?srow = "\<lambda>s. \<lparr>s_client_id = Some c, s_service_type = s, s_price = Some 0\<rparr>"
  have s1: "update_client_row (u_name b) (u_email b) (u_phone b) (u_company b) (u_notes b)
             (u_managed_by b) c d = Inr ?d1"
    using ex by (simp add: update_client_row_def nm)
  have ids1: "rowids (clients ?d1) = rowids (clients d)"
    by (induction "clients d") (auto simp: rowids_def split: prod.splits)
  let ?d1' = "delete_services_of c ?d1"
  have fk: "fk_ok (Some c) ?d1'"
    using ex ids1 by (simp add: fk_ok_def has_rowid_def delete_services_of_def)
  from for_each_insert_service[OF fk, of ss] obtain ids sq where len: "length ids = length ss"
    and s2: "for_each (insert_service c) (map Some ss) ?d1' =
       Inr (?d1'\<lparr>services := services ?d1' @ zip ids (map ?srow ss), seq_services := sq\<rparr>)"
    by blast
  let ?d2 = "?d1'\<lparr>services := services ?d1' @ zip ids (map ?srow ss), seq_services := sq\<rparr>"
  have body: "updateClient b c d = Inr ((), ?d2)"
    unfolding updateClient_def s1 sv
    by (simp only: sum.case option.case s2)
  have res: "update_client c b d = (Success, ?d2)"
    by (simp add: update_client_def transaction_def body)
  have se: "services ?d2 =
      filter (\<lambda>(i, s). s_client_id s \<noteq> Some c) (services d) @ zip ids (map ?srow ss)"
    by (simp add: delete_services_of_def)
  have mine: "filter (\<lambda>(i, s). s_client_id s = Some c) (services ?d2) = zip ids (map ?srow ss)"
    unfolding se by (auto simp: filter_zip_rows(1)[OF len] filter_empty_conv)
  have types: "service_types c ?d2 = ss"
    unfolding service_types_def mine by (rule filter_zip_rows(3)[OF len])
  have view: "\<forall>v \<in> set (list_clients ?d2).
      v_id v = c \<longrightarrow> v_services v = services_field (group_concat ss)"
    using list_clients_services[of _ ?d2] types by auto
  have others: "filter (\<lambda>(i, s). s_client_id s \<noteq> Some c) (services ?d2) =
      filter (\<lambda>(i, s). s_client_id s \<noteq> Some c) (services d)"
    unfolding se by (simp add: filter_zip_rows(2)[OF len])
  have ids2: "rowids (clients ?d2) = rowids (clients d)"
    using ids1 by (simp add: delete_services_of_def)
  have rest: "payments ?d2 = payments d" "tasks ?d2 = tasks d" "transactions ?d2 = transactions d"
    by (simp_all add: delete_services_of_def)
  show "\<exists>ids d'.
        update_client c b d = (Success, d') \<and>
        length ids = length ss \<and>
        filter (\<lambda>(i, s). s_client_id s = Some c) (services d') =
          zip ids (map (\<lambda>s. \<lparr>s_client_id = Some c, s_service_type = s, s_price = Some 0\<rparr>) ss) \<and>
        service_types c d' = ss \<and>
        (\<forall>v \<in> set (list_clients d').
           v_id v = c \<longrightarrow> v_services v = services_field (group_concat ss)) \<and>
        filter (\<lambda>(i, s). s_client_id s \<noteq> Some c) (services d') =
          filter (\<lambda>(i, s). s_client_id s \<noteq> Some c) (services d) \<and>
        rowids (clients d') = rowids (clients d) \<and>
        payments d' = payments d \<and> tasks d' = tasks d \<and> transactions d' = transactions d"
    apply (rule exI[of _ ids], rule exI[of _ ?d2])
    apply (intro conjI)
    apply (rule res, rule len, rule mine, rule types, rule view, rule others, rule ids2)
    apply (rule rest)+
    done
qed

theorem update_client_replaces_services_witness:
  "has_rowid 1 (clients demo_db) \<and> u_name acme_patch = Some ''Acme'' \<and>
   u_services acme_patch = Some (map Some [''web'', ''ads'']) \<and>
   service_types 1 demo_db = [''seo''] \<and>
   fst (update_client 1 acme_patch demo_db) = Success \<and>
   service_types 1 (snd (update_client 1 acme_patch demo_db)) = [''web'', ''ads''] \<and>
   list_all (\<lambda>v. v_services v = [''web'', ''ads''])
     (filter (\<lambda>v. v_id v = 1) (list_clients (snd (update_client 1 acme_patch demo_db))))"
proof -
  have h: "has_rowid 1 (clients demo_db)"
    by (simp add: has_rowid_def rowids_def demo_db_def)
  have n: "u_name acme_patch = Some ''Acme''"
    and sv: "u_services acme_patch = Some (map Some [''web'', ''ads''])"
    by (simp_all add: acme_patch_def)
  have before: "service_types 1 demo_db = [''seo'']"
    by (simp add: service_types_def demo_db_def)
  from update_client_replaces_services[of 1 acme_patch demo_db "''Acme''" "[''web'', ''ads'']"]
    h n sv
  obtain ids d' where r: "update_client 1 acme_patch demo_db = (Success, d')"
    and t: "service_types 1 d' = [''web'', ''ads'']"
    and g: "\<forall>v \<in> set (list_clients d').
           v_id v = 1 \<longrightarrow> v_services v = services_field (group_concat [''web'', ''ads''])"
    by blast
  have "services_field (group_concat [''web'', ''ads'']) = [''web'', ''ads'']"
    by (simp add: services_field_def group_concat_def)
  with g r have view: "list_all (\<lambda>v. v_services v = [''web'', ''ads''])
     (filter (\<lambda>v. v_id v = 1) (list_clients (snd (update_client 1 acme_patch demo_db))))"
    by (simp add: list_all_iff)
  from r have ok: "fst (update_client 1 acme_patch demo_db) = Success" by simp
  from r t have after: "service_types 1 (snd (update_client 1 acme_patch demo_db)) = [''web'', ''ads'']"
    by simp
  show ?thesis by (intro conjI h n sv before ok after view)
qed

section \<open>The services array of the client list\<close>

lemma split_on_not_Nil [simp]: "split_on sep s \<noteq> []"
  by (induction s) auto

lemma length_split_on: "length (split_on sep s) = Suc (count_list s sep)"
proof (induction s)
  case Nil
  then show ?case by simp
next
  case (Cons c cs)
  have "length (tl (split_on sep cs)) = count_list cs sep"
    using Cons.IH by simp
  with Cons.IH show ?case by simp
qed

lemma split_on_no_sep: "sep \<notin> set x \<Longrightarrow> split_on sep x = [x]"
  by (induction x) auto

lemma split_on_append: "sep \<notin> set x \<Longrightarrow> split_on sep (x @ sep # r) = x # split_on sep r"
  by (induction x) auto

lemma split_on_join:
  assumes "\<forall>s \<in> set xs. sep \<notin> set s" and "xs \<noteq> []"
  shows "split_on sep (join_with sep xs) = xs"
  using assms
proof (induction sep xs rule: join_with.induct)
  case (1 sep)
  then show ?case by simp
next
  case (2 sep x)
  then show ?case by (simp add: split_on_no_sep)
next
  case (3 sep x y ys)
  then show ?case by (simp add: split_on_append)
qed

lemma join_with_Nil: "join_with sep xs = [] \<longleftrightarrow> xs = [] \<or> xs = [[]]"
  by (induction sep xs rule: join_with.induct) auto

lemma count_join_with:
  "xs \<noteq> [] \<Longrightarrow>
   Suc (count_list (join_with sep xs) sep) = length xs + sum_list (map (\<lambda>s. count_list s sep) xs)"
  by (induction sep xs rule: join_with.induct) auto

lemma services_field_empty:
  "services_field (group_concat xs) = [] \<longleftrightarrow> xs = [] \<or> xs = [[]]"
  by (auto simp: services_field_def group_concat_def join_with_Nil)

lemma services_field_length:
  assumes "xs \<noteq> []" and "xs \<noteq> [[]]"
  shows "length (services_field (group_concat xs)) =
     length xs + sum_list (map (\<lambda>s. count_list s CHR '','') xs)"
  using assms
  by (simp add: services_field_def group_concat_def join_with_Nil length_split_on count_join_with)

lemma count_list_0: "count_list s c = 0 \<longleftrightarrow> c \<notin> set s"
  by (induction s) auto

lemma sum_counts_0:
  "sum_list (map (\<lambda>s. count_list s c) xs) = 0 \<longleftrightarrow> (\<forall>s \<in> set xs. c \<notin> set s)"
  by (induction xs) (auto simp: count_list_0)

lemma services_field_same_length:
  assumes "length (services_field (group_concat xs)) = length xs"
  shows "\<forall>s \<in> set xs. CHR '','' \<notin> set s"
proof (cases "xs = [] \<or> xs = [[]]")
  case True
  then show ?thesis by auto
next
  case False
  then have "length (services_field (group_concat xs)) =
     length xs + sum_list (map (\<lambda>s. count_list s CHR '','') xs)"
    by (simp add: services_field_length)
  with assms have "sum_list (map (\<lambda>s. count_list s CHR '','') xs) = 0" by simp
  then show ?thesis by (simp only: sum_counts_0)
qed

lemma services_field_roundtrip:
  assumes "\<forall>s \<in> set xs. CHR '','' \<notin> set s" and "xs \<noteq> [[]]"
  shows "services_field (group_concat xs) = xs"
proof (cases "xs = []")
  case True
  then show ?thesis by (simp add: services_field_def group_concat_def)
next
  case False
  with assms(2) have "join_with CHR '','' xs \<noteq> []" by (simp add: join_with_Nil)
  with False assms(1) show ?thesis
    by (simp add: services_field_def group_concat_def split_on_join)
qed


text \<open>
  C10 as stated fails: a client created with the empty string as its single service
  type has one service row, and \<^verbatim>\<open>GET /api/clients\<close> gives it the empty array,
  because the comma-joined string is empty and so falsy.
\<close>

theorem services_array_counterexample:
  "service_types 1 (snd (create_client blank_service ''2024-03-01 08:00:00'' empty_db)) = [''''] \<and>
   map v_services (list_clients (snd (create_client blank_service ''2024-03-01 08:00:00'' empty_db)))
     = [[]]"
  by (simp add: create_client_def transaction_def insertClient_def insert_client_def
      insert_service_def insert_payment_def blank_service_def two_services_def fk_ok_def
      has_rowid_def rowids_def put_row_def next_rowid_def empty_db_def Let_def
      service_types_def list_clients_def client_rows_def left_join_payments_def
      pending_tasks_def group_concat_def services_field_def order_by_def)

text \<open>
  C10, amended. In \<^verbatim>\<open>GET /api/clients\<close> the \<open>services\<close> field of a client is the
  comma-joined string of its service types split at the commas. It is the empty array
  exactly when the client has no service row or has exactly one service row whose
  type is the empty string. In every other case its length is the number of service
  rows plus the number of commas inside the service types; so its length equals the
  number of service rows only when no service type contains a comma, and when none
  does (and the rows are not the single empty type) the field is the list of the
  service types itself.
\<close>

theorem services_array:
  assumes "v \<in> set (list_clients d)"
  shows "(v_services v = [] \<longleftrightarrow>
            service_types (v_id v) d = [] \<or> service_types (v_id v) d = ['''']) \<and>
         (service_types (v_id v) d \<noteq> [] \<and> service_types (v_id v) d \<noteq> [''''] \<longrightarrow>
            length (v_services v) = length (service_types (v_id v) d) +
              sum_list (map (\<lambda>s. count_list s CHR '','') (service_types (v_id v) d))) \<and>
         (length (v_services v) = length (service_types (v_id v) d) \<longrightarrow>
            (\<forall>s \<in> set (service_types (v_id v) d). CHR '','' \<notin> set s)) \<and>
         ((\<forall>s \<in> set (service_types (v_id v) d). CHR '','' \<notin> set s) \<and>
            service_types (v_id v) d \<noteq> [''''] \<longrightarrow>
            v_services v = service_types (v_id v) d)"
proof -
  let ?xs = "service_types (v_id v) d"
  have v: "v_services v = services_field (group_concat ?xs)"
    using assms by (rule list_clients_services)
  have a: "v_services v = [] \<longleftrightarrow> ?xs = [] \<or> ?xs = ['''']"
    unfolding v by (rule services_field_empty)
  have b: "?xs \<noteq> [] \<and> ?xs \<noteq> [''''] \<longrightarrow>
      length (v_services v) = length ?xs + sum_list (map (\<lambda>s. count_list s CHR '','') ?xs)"
    unfolding v by (simp add: services_field_length)
  have c: "length (v_services v) = length ?xs \<longrightarrow> (\<forall>s \<in> set ?xs. CHR '','' \<notin> set s)"
    unfolding v using services_field_same_length[of ?xs] by blast
  have e: "(\<forall>s \<in> set ?xs. CHR '','' \<notin> set s) \<and> ?xs \<noteq> [''''] \<longrightarrow> v_services v = ?xs"
    unfolding v using services_field_roundtrip[of ?xs] by blast
  show ?thesis by (intro conjI a b c e)
qed

theorem services_array_witness:
  "list_clients comma_db \<noteq> [] \<and>
   service_types (v_id (hd (list_clients comma_db))) comma_db = [''seo,ads'', ''web''] \<and>
   v_services (hd (list_clients comma_db)) = [''seo'', ''ads'', ''web''] \<and>
   length (v_services (hd (list_clients comma_db))) = 2 + 1"
proof -
  have l: "list_clients comma_db =
    [\<lparr>v_id = 1, v_client = acme, v_services = [''seo'', ''ads'', ''web''],
      v_total_amount = Some 1000, v_advance_paid = Some 0, v_remaining_balance = Some 1000,
      v_pending_tasks = 0\<rparr>]"
    by (simp add: comma_db_def demo_db_def acme_payment_def list_clients_def client_rows_def
        left_join_payments_def pending_tasks_def service_types_def group_concat_def
        services_field_def order_by_def)
  have ne: "list_clients comma_db \<noteq> []" by (simp add: l)
  then have mem: "hd (list_clients comma_db) \<in> set (list_clients comma_db)" by simp
  have t: "service_types (v_id (hd (list_clients comma_db))) comma_db = [''seo,ads'', ''web'']"
    by (simp add: l) (simp add: service_types_def comma_db_def demo_db_def)
  have s: "v_services (hd (list_clients comma_db)) = [''seo'', ''ads'', ''web'']"
    by (simp add: l)
  from services_array[OF mem] t
  have "length (v_services (hd (list_clients comma_db))) =
     length [''seo,ads'', ''web''] + sum_list (map (\<lambda>s. count_list s CHR '','') [''seo,ads'', ''web''])"
    by simp
  then have n: "length (v_services (hd (list_clients comma_db))) = 2 + 1" by simp
  show ?thesis by (intro conjI ne t s n)
qed

section \<open>The task list\<close>

lemma sorted_wrt_insert_by:
  assumes total: "\<And>a b. le a b \<or> le b a"
    and trans: "\<And>a b c. le a b \<Longrightarrow> le b c \<Longrightarrow> le a c"
    and "sorted_wrt le xs"
  shows "sorted_wrt le (insert_by le x xs)"
  using assms(3)
proof (induction xs)
  case Nil
  then show ?case by simp
next
  case (Cons y ys)
  show ?case
  proof (cases "le x y")
    case True
    from Cons.prems have "\<forall>z \<in> set ys. le y z" by simp
    with True have "\<forall>z \<in> set ys. le x z" by (blast intro: trans)
    with True Cons.prems show ?thesis by simp
  next
    case False
    with total have "le y x" by blast
    with False Cons show ?thesis by simp
  qed
qed

lemma sorted_wrt_order_by:
  assumes "\<And>a b. le a b \<or> le b a" and "\<And>a b c. le a b \<Longrightarrow> le b c \<Longrightarrow> le a c"
  shows "sorted_wrt le (order_by le xs)"
proof (induction xs)
  case Nil
  then show ?case by (simp add: order_by_def)
next
  case (Cons x xs)
  have "order_by le (x # xs) = insert_by le x (order_by le xs)"
    by (simp add: order_by_def)
  with Cons show ?case
    using sorted_wrt_insert_by[of le "order_by le xs" x] assms by simp
qed

lemma task_order_total: "task_order a b \<or> task_order b a"
proof -
  have "t_due_date (tv_task a) < t_due_date (tv_task b) \<or>
        t_due_date (tv_task a) = t_due_date (tv_task b) \<or>
        t_due_date (tv_task b) < t_due_date (tv_task a)"
    by (rule less_linear)
  moreover have "t_created_at (tv_task b) \<le> t_created_at (tv_task a) \<or>
        t_created_at (tv_task a) \<le> t_created_at (tv_task b)"
    by (rule linear)
  ultimately show ?thesis unfolding task_order_def by auto
qed

lemma task_order_trans: "task_order a b \<Longrightarrow> task_order b c \<Longrightarrow> task_order a c"
  unfolding task_order_def by (auto dest: less_trans order_trans)

lemma list_tasks_sorted: "sorted_wrt task_order (list_tasks q d)"
  unfolding list_tasks_def
  by (rule sorted_wrt_order_by) (rule task_order_total, rule task_order_trans)

lemma task_order_due:
  "task_order a b \<Longrightarrow>
   t_due_date (tv_task a) \<le> t_due_date (tv_task b) \<and>
   (t_due_date (tv_task a) = t_due_date (tv_task b) \<longrightarrow>
      t_created_at (tv_task b) \<le> t_created_at (tv_task a)) \<and>
   (t_due_date (tv_task b) = None \<longrightarrow> t_due_date (tv_task a) = None)"
  unfolding task_order_def
  by (cases "t_due_date (tv_task a)"; cases "t_due_date (tv_task b)") auto

lemma set_task_rows:
  "v \<in> set (task_rows (Some c) d) \<longleftrightarrow>
   (\<exists>i t r. (i, t) \<in> set (tasks d) \<and> (c, r) \<in> set (clients d) \<and> t_client_id t = Some c \<and>
      v = \<lparr>tv_id = i, tv_task = t, tv_client_name = c_name r\<rparr>)"
proof
  assume "v \<in> set (task_rows (Some c) d)"
  then show "\<exists>i t r. (i, t) \<in> set (tasks d) \<and> (c, r) \<in> set (clients d) \<and>
      t_client_id t = Some c \<and> v = \<lparr>tv_id = i, tv_task = t, tv_client_name = c_name r\<rparr>"
    by (clarsimp simp: task_rows_def) blast
next
  assume "\<exists>i t r. (i, t) \<in> set (tasks d) \<and> (c, r) \<in> set (clients d) \<and>
      t_client_id t = Some c \<and> v = \<lparr>tv_id = i, tv_task = t, tv_client_name = c_name r\<rparr>"
  then obtain i t r where "(i, t) \<in> set (tasks d)" "(c, r) \<in> set (clients d)"
    "t_client_id t = Some c" "v = \<lparr>tv_id = i, tv_task = t, tv_client_name = c_name r\<rparr>"
    by blast
  then show "v \<in> set (task_rows (Some c) d)"
    by (force simp: task_rows_def)
qed

lemma set_list_tasks:
  "v \<in> set (list_tasks (Some c) d) \<longleftrightarrow>
      (\<exists>i t r. (i, t) \<in> set (tasks d) \<and> (c, r) \<in> set (clients d) \<and>
         t_client_id t = Some c \<and>
         v = \<lparr>tv_id = i, tv_task = t, tv_client_name = c_name r\<rparr>)"
  unfolding list_tasks_def set_order_by by (rule set_task_rows)

lemma list_tasks_client:
  assumes "v \<in> set (list_tasks (Some c) d)"
  shows "t_client_id (tv_task v) = Some c"
proof -
  from assms have "v \<in> set (task_rows (Some c) d)" by (simp add: list_tasks_def)
  then show ?thesis by (auto simp: task_rows_def)
qed

lemma list_tasks_order:
  "sorted_wrt (\<lambda>a b.
       t_due_date (tv_task a) \<le> t_due_date (tv_task b) \<and>
       (t_due_date (tv_task a) = t_due_date (tv_task b) \<longrightarrow>
          t_created_at (tv_task b) \<le> t_created_at (tv_task a)) \<and>
       (t_due_date (tv_task b) = None \<longrightarrow> t_due_date (tv_task a) = None))
     (list_tasks q d)"
  using list_tasks_sorted[of q d]
  by (rule sorted_wrt_mono_rel[rotated]) (erule task_order_due)




section \<open>Backup and restore\<close>

lemma sorted_ids_put_row:
  assumes "sorted_ids t" and "\<not> has_rowid i t"
  shows "sorted_ids (put_row i r t)"
  using assms unfolding sorted_ids_def has_rowid_def rowids_def put_row_def
proof (induction t)
  case Nil
  then show ?case by simp
next
  case (Cons y t)
  then show ?case by (auto simp: set_insort_key)
qed

lemma set_put_row [simp]: "set (put_row i r t) = insert (i, r) (set t)"
  by (simp add: put_row_def set_insort_key)

lemma put_row_last:
  assumes "sorted_wrt (<) (map fst (t @ [(i, r)]))"
  shows "put_row i r t = t @ [(i, r)]"
  unfolding put_row_def
  by (rule insort_key_last) (use assms in \<open>auto simp: sorted_wrt_append\<close>)

lemma sorted_last_fresh:
  assumes "sorted_wrt (<) (map fst (t @ (i, r) # rs))"
  shows "\<not> has_rowid i t" and "sorted_wrt (<) (map fst (t @ [(i, r)]))"
    and "sorted_wrt (<) (map fst ((t @ [(i, r)]) @ rs))"
  using assms by (auto simp: sorted_wrt_append has_rowid_def rowids_def)

lemma fk_ok_frame:
  "fk_ok c (d\<lparr>services := sv\<rparr>) = fk_ok c d"
  "fk_ok c (d\<lparr>payments := pv\<rparr>) = fk_ok c d"
  "fk_ok c (d\<lparr>tasks := tv\<rparr>) = fk_ok c d"
  "fk_ok c (d\<lparr>transactions := xv\<rparr>) = fk_ok c d"
  "fk_ok c (d\<lparr>seq_clients := n\<rparr>) = fk_ok c d"
  "fk_ok c (d\<lparr>seq_services := n\<rparr>) = fk_ok c d"
  "fk_ok c (d\<lparr>seq_payments := n\<rparr>) = fk_ok c d"
  "fk_ok c (d\<lparr>seq_tasks := n\<rparr>) = fk_ok c d"
  "fk_ok c (d\<lparr>seq_transactions := n\<rparr>) = fk_ok c d"
  by (cases c; simp add: fk_ok_def)+

text \<open>Reinserting rows that come in rowid order, after the rows the table holds already.\<close>

lemma restore_clients_sorted:
  assumes "sorted_wrt (<) (map fst (clients d @ rows))"
  shows "\<exists>sq. for_each restore_client rows d =
     Inr (d\<lparr>clients := clients d @ rows, seq_clients := sq\<rparr>)"
  using assms
proof (induction rows arbitrary: d)
  case Nil
  have "d = d\<lparr>clients := clients d @ [], seq_clients := seq_clients d\<rparr>" by simp
  then show ?case by (metis for_each.simps(1))
next
  case (Cons x rows)
  obtain i r where x: "x = (i, r)" by (cases x)
  note s = sorted_last_fresh[OF Cons.prems[unfolded x]]
  let ?d1 = "d\<lparr>clients := clients d @ [(i, r)], seq_clients := max (seq_clients d) i\<rparr>"
  have step: "restore_client x d = Inr ?d1"
    by (simp add: restore_client_def x s(1) put_row_last[OF s(2)])
  have "sorted_wrt (<) (map fst (clients ?d1 @ rows))" using s(3) by simp
  from Cons.IH[OF this] obtain sq where
    "for_each restore_client rows ?d1 = Inr (?d1\<lparr>clients := clients ?d1 @ rows, seq_clients := sq\<rparr>)"
    by blast
  with step have "for_each restore_client (x # rows) d =
      Inr (d\<lparr>clients := clients d @ x # rows, seq_clients := sq\<rparr>)"
    by (simp add: x)
  then show ?case by blast
qed

lemma restore_services_sorted:
  assumes "sorted_wrt (<) (map fst (services d @ rows))"
    and "\<forall>(i, s) \<in> set rows. fk_ok (s_client_id s) d"
  shows "\<exists>sq. for_each restore_service rows d =
     Inr (d\<lparr>services := services d @ rows, seq_services := sq\<rparr>)"
  using assms
proof (induction rows arbitrary: d)
  case Nil
  have "d = d\<lparr>services := services d @ [], seq_services := seq_services d\<rparr>" by simp
  then show ?case by (metis for_each.simps(1))
next
  case (Cons x rows)
  obtain i r where x: "x = (i, r)" by (cases x)
  note s = sorted_last_fresh[OF Cons.prems(1)[unfolded x]]
  let ?d1 = "d\<lparr>services := services d @ [(i, r)], seq_services := max (seq_services d) i\<rparr>"
  have fk: "fk_ok (s_client_id r) d" using Cons.prems(2) by (simp add: x)
  have step: "restore_service x d = Inr ?d1"
    by (simp add: restore_service_def x s(1) fk put_row_last[OF s(2)])
  have a: "sorted_wrt (<) (map fst (services ?d1 @ rows))" using s(3) by simp
  have b: "\<forall>(i, s) \<in> set rows. fk_ok (s_client_id s) ?d1"
    using Cons.prems(2) by (simp add: fk_ok_frame)
  from Cons.IH[OF a b] obtain sq where
    "for_each restore_service rows ?d1 =
       Inr (?d1\<lparr>services := services ?d1 @ rows, seq_services := sq\<rparr>)"
    by blast
  with step have "for_each restore_service (x # rows) d =
      Inr (d\<lparr>services := services d @ x # rows, seq_services := sq\<rparr>)"
    by (simp add: x)
  then show ?case by blast
qed

lemma restore_payments_sorted:
  assumes "sorted_wrt (<) (map fst (payments d @ rows))"
    and "\<forall>(i, p) \<in> set rows. fk_ok (p_client_id p) d"
  shows "\<exists>sq. for_each restore_payment rows d =
     Inr (d\<lparr>payments := payments d @ rows, seq_payments := sq\<rparr>)"
  using assms
proof (induction rows arbitrary: d)
  case Nil
  have "d = d\<lparr>payments := payments d @ [], seq_payments := seq_payments d\<rparr>" by simp
  then show ?case by (metis for_each.simps(1))
next
  case (Cons x rows)
  obtain i r where x: "x = (i, r)" by (cases x)
  note s = sorted_last_fresh[OF Cons.prems(1)[unfolded x]]
  let ?d1 = "d\<lparr>payments := payments d @ [(i, r)], seq_payments := max (seq_payments d) i\<rparr>"
  have fk: "fk_ok (p_client_id r) d" using Cons.prems(2) by (simp add: x)
  have step: "restore_payment x d = Inr ?d1"
    by (simp add: restore_payment_def x s(1) fk put_row_last[OF s(2)])
  have a: "sorted_wrt (<) (map fst (payments ?d1 @ rows))" using s(3) by simp
  have b: "\<forall>(i, p) \<in> set rows. fk_ok (p_client_id p) ?d1"
    using Cons.prems(2) by (simp add: fk_ok_frame)
  from Cons.IH[OF a b] obtain sq where
    "for_each restore_payment rows ?d1 =
       Inr (?d1\<lparr>payments := payments ?d1 @ rows, seq_payments := sq\<rparr>)"
    by blast
  with step have "for_each restore_payment (x # rows) d =
      Inr (d\<lparr>payments := payments d @ x # rows, seq_payments := sq\<rparr>)"
    by (simp add: x)
  then show ?case by blast
qed

lemma restore_tasks_sorted:
  assumes "sorted_wrt (<) (map fst (tasks d @ rows))"
    and "\<forall>(i, t) \<in> set rows. fk_ok (t_client_id t) d"
  shows "\<exists>sq. for_each restore_task rows d =
     Inr (d\<lparr>tasks := tasks d @ rows, seq_tasks := sq\<rparr>)"
  using assms
proof (induction rows arbitrary: d)
  case Nil
  have "d = d\<lparr>tasks := tasks d @ [], seq_tasks := seq_tasks d\<rparr>" by simp
  then show ?case by (metis for_each.simps(1))
next
  case (Cons x rows)
  obtain i r where x: "x = (i, r)" by (cases x)
  note s = sorted_last_fresh[OF Cons.prems(1)[unfolded x]]
  let ?d1 = "d\<lparr>tasks := tasks d @ [(i, r)], seq_tasks := max (seq_tasks d) i\<rparr>"
  have fk: "fk_ok (t_client_id r) d" using Cons.prems(2) by (simp add: x)
  have step: "restore_task x d = Inr ?d1"
    by (simp add: restore_task_def x s(1) fk put_row_last[OF s(2)])
  have a: "sorted_wrt (<) (map fst (tasks ?d1 @ rows))" using s(3) by simp
  have b: "\<forall>(i, t) \<in> set rows. fk_ok (t_client_id t) ?d1"
    using Cons.prems(2) by (simp add: fk_ok_frame)
  from Cons.IH[OF a b] obtain sq where
    "for_each restore_task rows ?d1 =
       Inr (?d1\<lparr>tasks := tasks ?d1 @ rows, seq_tasks := sq\<rparr>)"
    by blast
  with step have "for_each restore_task (x # rows) d =
      Inr (d\<lparr>tasks := tasks d @ x # rows, seq_tasks := sq\<rparr>)"
    by (simp add: x)
  then show ?case by blast
qed

lemma clear_tables_eq:
  "clear_tables d = d\<lparr>clients := [], services := [], payments := [], tasks := [],
     transactions := filter (\<lambda>(i, x). survives (rowids (clients d)) (x_client_id x))
       (transactions d)\<rparr>"
  by (simp add: clear_tables_def delete_clients_def delete_services_def delete_payments_def
      delete_tasks_def cascade_def)

lemma fk_ok_same_clients: "clients a = clients b \<Longrightarrow> fk_ok c a = fk_ok c b"
  by (cases c) (simp_all add: fk_ok_def)

lemma restore_backup:
  assumes "consistent d"
  shows "\<exists>d'. restore (backup now d) d2 = (Success, d') \<and>
     clients d' = clients d \<and> services d' = services d \<and>
     payments d' = payments d \<and> tasks d' = tasks d \<and>
     transactions d' = transactions (clear_tables d2)"
proof -
  let ?b = "backup now d"
  let ?d0 = "clear_tables d2"
  have k: "k_clients ?b = clients d" "k_services ?b = services d"
    "k_payments ?b = payments d" "k_tasks ?b = tasks d"
    by (simp_all add: backup_def)
  have empty: "clients ?d0 = []" "services ?d0 = []" "payments ?d0 = []" "tasks ?d0 = []"
    by (simp_all add: clear_tables_eq)
  from assms have sorted: "sorted_wrt (<) (map fst (clients d))"
    "sorted_wrt (<) (map fst (services d))" "sorted_wrt (<) (map fst (payments d))"
    "sorted_wrt (<) (map fst (tasks d))"
    by (simp_all add: consistent_def sorted_ids_def rowids_def)
  from assms have fks: "\<forall>(i, s) \<in> set (services d). fk_ok (s_client_id s) d"
    "\<forall>(i, p) \<in> set (payments d). fk_ok (p_client_id p) d"
    "\<forall>(i, t) \<in> set (tasks d). fk_ok (t_client_id t) d"
    by (simp_all add: consistent_def list_all_iff)
  from restore_clients_sorted[of ?d0 "clients d"] sorted(1) obtain sq1 where
    s1: "for_each restore_client (clients d) ?d0 =
       Inr (?d0\<lparr>clients := clients d, seq_clients := sq1\<rparr>)"
    by (auto simp: empty)
  let ?d1 = "?d0\<lparr>clients := clients d, seq_clients := sq1\<rparr>"
  have c1: "\<And>c. fk_ok c ?d1 = fk_ok c d"
    by (rule fk_ok_same_clients) simp
  from restore_services_sorted[of ?d1 "services d"] sorted(2) fks(1) obtain sq2 where
    s2: "for_each restore_service (services d) ?d1 =
       Inr (?d1\<lparr>services := services d, seq_services := sq2\<rparr>)"
    by (auto simp: empty c1)
  let ?d2 = "?d1\<lparr>services := services d, seq_services := sq2\<rparr>"
  have c2: "\<And>c. fk_ok c ?d2 = fk_ok c d"
    by (rule fk_ok_same_clients) simp
  from restore_payments_sorted[of ?d2 "payments d"] sorted(3) fks(2) obtain sq3 where
    s3: "for_each restore_payment (payments d) ?d2 =
       Inr (?d2\<lparr>payments := payments d, seq_payments := sq3\<rparr>)"
    by (auto simp: empty c2)
  let ?d3 = "?d2\<lparr>payments := payments d, seq_payments := sq3\<rparr>"
  have c3: "\<And>c. fk_ok c ?d3 = fk_ok c d"
    by (rule fk_ok_same_clients) simp
  from restore_tasks_sorted[of ?d3 "tasks d"] sorted(4) fks(3) obtain sq4 where
    s4: "for_each restore_task (tasks d) ?d3 =
       Inr (?d3\<lparr>tasks := tasks d, seq_tasks := sq4\<rparr>)"
    by (auto simp: empty c3)
  let ?d4 = "?d3\<lparr>tasks := tasks d, seq_tasks := sq4\<rparr>"
  have body: "restore_body ?b d2 = Inr ((), ?d4)"
    unfolding restore_body_def k
    by (simp only: s1 s2 s3 s4 sum.case)
  have res: "restore ?b d2 = (Success, ?d4)"
    by (simp add: restore_def transaction_def body)
  have "clients ?d4 = clients d \<and> services ?d4 = services d \<and>
     payments ?d4 = payments d \<and> tasks ?d4 = tasks d \<and>
     transactions ?d4 = transactions ?d0"
    by simp
  with res show ?thesis by blast
qed



text \<open>Reinserting any rows: what a loop that went through has done.\<close>

lemma restore_clients_done:
  assumes "for_each restore_client rows d = Inr d'"
  shows "\<exists>t sq. d' = d\<lparr>clients := t, seq_clients := sq\<rparr> \<and>
     set t = set (clients d) \<union> set rows \<and> (sorted_ids (clients d) \<longrightarrow> sorted_ids t)"
  using assms
proof (induction rows arbitrary: d)
  case Nil
  then have "d' = d\<lparr>clients := clients d, seq_clients := seq_clients d\<rparr>" by simp
  then show ?case by (metis append_Nil2 set_append empty_set sup_bot.right_neutral)
next
  case (Cons x rows)
  from Cons.prems obtain d1 where step: "restore_client x d = Inr d1"
    and run: "for_each restore_client rows d1 = Inr d'"
    by (auto split: sum.splits)
  from step have fresh: "\<not> has_rowid (fst x) (clients d)"
    and d1: "d1 = d\<lparr>clients := put_row (fst x) (snd x) (clients d),
                     seq_clients := max (seq_clients d) (fst x)\<rparr>"
    by (auto simp: restore_client_def split: if_splits)
  from Cons.IH[OF run] obtain t sq where d': "d' = d1\<lparr>clients := t, seq_clients := sq\<rparr>"
    and t: "set t = set (clients d1) \<union> set rows"
    and so: "sorted_ids (clients d1) \<longrightarrow> sorted_ids t"
    by blast
  have "d' = d\<lparr>clients := t, seq_clients := sq\<rparr>" by (simp add: d' d1)
  moreover have "set t = set (clients d) \<union> set (x # rows)" by (auto simp: t d1)
  moreover have "sorted_ids (clients d) \<longrightarrow> sorted_ids t"
    using so fresh by (simp add: d1 sorted_ids_put_row)
  ultimately show ?case by blast
qed

lemma restore_services_done:
  assumes "for_each restore_service rows d = Inr d'"
  shows "\<exists>t sq. d' = d\<lparr>services := t, seq_services := sq\<rparr> \<and>
     set t = set (services d) \<union> set rows \<and> (sorted_ids (services d) \<longrightarrow> sorted_ids t) \<and>
     (\<forall>(i, s) \<in> set rows. fk_ok (s_client_id s) d)"
  using assms
proof (induction rows arbitrary: d)
  case Nil
  then have "d' = d\<lparr>services := services d, seq_services := seq_services d\<rparr>" by simp
  then show ?case
    by (intro exI[of _ "services d"] exI[of _ "seq_services d"]) simp
next
  case (Cons x rows)
  from Cons.prems obtain d1 where step: "restore_service x d = Inr d1"
    and run: "for_each restore_service rows d1 = Inr d'"
    by (auto split: sum.splits)
  from step have fresh: "\<not> has_rowid (fst x) (services d)"
    and fk: "fk_ok (s_client_id (snd x)) d"
    and d1: "d1 = d\<lparr>services := put_row (fst x) (snd x) (services d),
                     seq_services := max (seq_services d) (fst x)\<rparr>"
    by (auto simp: restore_service_def split: if_splits)
  from Cons.IH[OF run] obtain t sq where d': "d' = d1\<lparr>services := t, seq_services := sq\<rparr>"
    and t: "set t = set (services d1) \<union> set rows"
    and so: "sorted_ids (services d1) \<longrightarrow> sorted_ids t"
    and fks: "\<forall>(i, s) \<in> set rows. fk_ok (s_client_id s) d1"
    by blast
  have "d' = d\<lparr>services := t, seq_services := sq\<rparr>" by (simp add: d' d1)
  moreover have "set t = set (services d) \<union> set (x # rows)" by (auto simp: t d1)
  moreover have "sorted_ids (services d) \<longrightarrow> sorted_ids t"
    using so fresh by (simp add: d1 sorted_ids_put_row)
  moreover have "\<forall>(i, s) \<in> set (x # rows). fk_ok (s_client_id s) d"
    using fks fk by (cases x) (simp add: d1 fk_ok_frame)
  ultimately show ?case by blast
qed

lemma restore_payments_done:
  assumes "for_each restore_payment rows d = Inr d'"
  shows "\<exists>t sq. d' = d\<lparr>payments := t, seq_payments := sq\<rparr> \<and>
     set t = set (payments d) \<union> set rows \<and> (sorted_ids (payments d) \<longrightarrow> sorted_ids t) \<and>
     (\<forall>(i, p) \<in> set rows. fk_ok (p_client_id p) d)"
  using assms
proof (induction rows arbitrary: d)
  case Nil
  then have "d' = d\<lparr>payments := payments d, seq_payments := seq_payments d\<rparr>" by simp
  then show ?case
    by (intro exI[of _ "payments d"] exI[of _ "seq_payments d"]) simp
next
  case (Cons x rows)
  from Cons.prems obtain d1 where step: "restore_payment x d = Inr d1"
    and run: "for_each restore_payment rows d1 = Inr d'"
    by (auto split: sum.splits)
  from step have fresh: "\<not> has_rowid (fst x) (payments d)"
    and fk: "fk_ok (p_client_id (snd x)) d"
    and d1: "d1 = d\<lparr>payments := put_row (fst x) (snd x) (payments d),
                     seq_payments := max (seq_payments d) (fst x)\<rparr>"
    by (auto simp: restore_payment_def split: if_splits)
  from Cons.IH[OF run] obtain t sq where d': "d' = d1\<lparr>payments := t, seq_payments := sq\<rparr>"
    and t: "set t = set (payments d1) \<union> set rows"
    and so: "sorted_ids (payments d1) \<longrightarrow> sorted_ids t"
    and fks: "\<forall>(i, p) \<in> set rows. fk_ok (p_client_id p) d1"
    by blast
  have "d' = d\<lparr>payments := t, seq_payments := sq\<rparr>" by (simp add: d' d1)
  moreover have "set t = set (payments d) \<union> set (x # rows)" by (auto simp: t d1)
  moreover have "sorted_ids (payments d) \<longrightarrow> sorted_ids t"
    using so fresh by (simp add: d1 sorted_ids_put_row)
  moreover have "\<forall>(i, p) \<in> set (x # rows). fk_ok (p_client_id p) d"
    using fks fk by (cases x) (simp add: d1 fk_ok_frame)
  ultimately show ?case by blast
qed

lemma restore_tasks_done:
  assumes "for_each restore_task rows d = Inr d'"
  shows "\<exists>t sq. d' = d\<lparr>tasks := t, seq_tasks := sq\<rparr> \<and>
     set t = set (tasks d) \<union> set rows \<and> (sorted_ids (tasks d) \<longrightarrow> sorted_ids t) \<and>
     (\<forall>(i, r) \<in> set rows. fk_ok (t_client_id r) d)"
  using assms
proof (induction rows arbitrary: d)
  case Nil
  then have "d' = d\<lparr>tasks := tasks d, seq_tasks := seq_tasks d\<rparr>" by simp
  then show ?case
    by (intro exI[of _ "tasks d"] exI[of _ "seq_tasks d"]) simp
next
  case (Cons x rows)
  from Cons.prems obtain d1 where step: "restore_task x d = Inr d1"
    and run: "for_each restore_task rows d1 = Inr d'"
    by (auto split: sum.splits)
  from step have fresh: "\<not> has_rowid (fst x) (tasks d)"
    and fk: "fk_ok (t_client_id (snd x)) d"
    and d1: "d1 = d\<lparr>tasks := put_row (fst x) (snd x) (tasks d),
                     seq_tasks := max (seq_tasks d) (fst x)\<rparr>"
    by (auto simp: restore_task_def split: if_splits)
  from Cons.IH[OF run] obtain t sq where d': "d' = d1\<lparr>tasks := t, seq_tasks := sq\<rparr>"
    and t: "set t = set (tasks d1) \<union> set rows"
    and so: "sorted_ids (tasks d1) \<longrightarrow> sorted_ids t"
    and fks: "\<forall>(i, r) \<in> set rows. fk_ok (t_client_id r) d1"
    by blast
  have "d' = d\<lparr>tasks := t, seq_tasks := sq\<rparr>" by (simp add: d' d1)
  moreover have "set t = set (tasks d) \<union> set (x # rows)" by (auto simp: t d1)
  moreover have "sorted_ids (tasks d) \<longrightarrow> sorted_ids t"
    using so fresh by (simp add: d1 sorted_ids_put_row)
  moreover have "\<forall>(i, r) \<in> set (x # rows). fk_ok (t_client_id r) d"
    using fks fk by (cases x) (simp add: d1 fk_ok_frame)
  ultimately show ?case by blast
qed

lemma restore_failure: "fst (restore b d) \<noteq> Success \<Longrightarrow> snd (restore b d) = d"
  by (auto simp: restore_def transaction_def split: sum.splits prod.splits)

lemma restore_success:
  assumes "restore b d = (Success, d')"
  shows "set (clients d') = set (k_clients b) \<and> sorted_ids (clients d') \<and>
     set (services d') = set (k_services b) \<and> sorted_ids (services d') \<and>
     set (payments d') = set (k_payments b) \<and> sorted_ids (payments d') \<and>
     set (tasks d') = set (k_tasks b) \<and> sorted_ids (tasks d') \<and>
     transactions d' = transactions (clear_tables d) \<and>
     (\<forall>(i, s) \<in> set (services d'). fk_ok (s_client_id s) d') \<and>
     (\<forall>(i, p) \<in> set (payments d'). fk_ok (p_client_id p) d') \<and>
     (\<forall>(i, t) \<in> set (tasks d'). fk_ok (t_client_id t) d')"
proof -
  let ?d0 = "clear_tables d"
  from assms have body: "restore_body b d = Inr ((), d')"
    by (auto simp: restore_def transaction_def split: sum.splits prod.splits)
  then obtain d1 d2 d3 where
    r1: "for_each restore_client (k_clients b) ?d0 = Inr d1" and
    r2: "for_each restore_service (k_services b) d1 = Inr d2" and
    r3: "for_each restore_payment (k_payments b) d2 = Inr d3" and
    r4: "for_each restore_task (k_tasks b) d3 = Inr d'"
    by (auto simp: restore_body_def split: sum.splits)
  have empty: "clients ?d0 = []" "services ?d0 = []" "payments ?d0 = []" "tasks ?d0 = []"
    by (simp_all add: clear_tables_eq)
  from restore_clients_done[OF r1] obtain t1 sq1 where
    d1: "d1 = ?d0\<lparr>clients := t1, seq_clients := sq1\<rparr>" and
    t1: "set t1 = set (k_clients b)" "sorted_ids t1"
    by (auto simp: empty sorted_ids_def rowids_def)
  from restore_services_done[OF r2] obtain t2 sq2 where
    d2: "d2 = d1\<lparr>services := t2, seq_services := sq2\<rparr>" and
    t2: "set t2 = set (k_services b)" "sorted_ids t2" and
    f2: "\<forall>(i, s) \<in> set (k_services b). fk_ok (s_client_id s) d1"
    by (auto simp: d1 empty sorted_ids_def rowids_def)
  from restore_payments_done[OF r3] obtain t3 sq3 where
    d3: "d3 = d2\<lparr>payments := t3, seq_payments := sq3\<rparr>" and
    t3: "set t3 = set (k_payments b)" "sorted_ids t3" and
    f3: "\<forall>(i, p) \<in> set (k_payments b). fk_ok (p_client_id p) d2"
    by (auto simp: d2 d1 empty sorted_ids_def rowids_def)
  from restore_tasks_done[OF r4] obtain t4 sq4 where
    d4: "d' = d3\<lparr>tasks := t4, seq_tasks := sq4\<rparr>" and
    t4: "set t4 = set (k_tasks b)" "sorted_ids t4" and
    f4: "\<forall>(i, t) \<in> set (k_tasks b). fk_ok (t_client_id t) d3"
    by (auto simp: d3 d2 d1 empty sorted_ids_def rowids_def)
  have tabs: "clients d' = t1" "services d' = t2" "payments d' = t3" "tasks d' = t4"
    "transactions d' = transactions ?d0"
    by (simp_all add: d4 d3 d2 d1)
  have same: "\<And>c. fk_ok c d1 = fk_ok c d'" "\<And>c. fk_ok c d2 = fk_ok c d'"
    "\<And>c. fk_ok c d3 = fk_ok c d'"
    by (rule fk_ok_same_clients, simp add: d4 d3 d2 d1)+
  show ?thesis
    using t1 t2 t3 t4 f2 f3 f4 unfolding tabs same by simp
qed

text \<open>
  C5 as stated fails on the ledger: \<^verbatim>\<open>DELETE FROM clients\<close> cascades into
  \<open>transactions\<close> (its \<open>client_id\<close> is declared \<^verbatim>\<open>ON DELETE CASCADE\<close> too). After a
  payment of 400 by client 1 the ledger has one row; restoring the database from its own
  backup leaves the ledger empty.
\<close>

theorem restore_ledger_counterexample:
  "transactions paid_db =
     [(1, \<lparr>x_client_id = Some 1, x_amount = 400, x_type = Some ''payment'',
           x_created_at = Some ''2024-02-01 09:00:00''\<rparr>)] \<and>
   fst (restore (backup ''2024-06-01T00:00:00.000Z'' paid_db) paid_db) = Success \<and>
   transactions (snd (restore (backup ''2024-06-01T00:00:00.000Z'' paid_db) paid_db)) = []"
proof -
  have p: "paid_db = demo_db\<lparr>
      payments := [(1, acme_payment\<lparr>p_advance_paid := Some 400,
         p_remaining_balance := Some 600, p_last_updated := Some ''2024-02-01 09:00:00''\<rparr>)],
      transactions := [(1, \<lparr>x_client_id = Some 1, x_amount = 400, x_type = Some ''payment'',
           x_created_at = Some ''2024-02-01 09:00:00''\<rparr>)],
      seq_transactions := 1\<rparr>"
    by (simp add: paid_db_def patch_payment_def select_payment_def transaction_def
        updatePayment_def update_payments_def insert_transaction_def to_number_def fk_ok_def
        has_rowid_def rowids_def put_row_def next_rowid_def demo_db_def acme_payment_def Let_def)
  have c: "consistent paid_db"
    unfolding p
    by (simp add: consistent_def sorted_ids_def rowids_def demo_db_def fk_ok_def has_rowid_def
        acme_payment_def)
  from restore_backup[OF c, of "''2024-06-01T00:00:00.000Z''" paid_db]
  obtain d' where r: "restore (backup ''2024-06-01T00:00:00.000Z'' paid_db) paid_db = (Success, d')"
    and x: "transactions d' = transactions (clear_tables paid_db)"
    by blast
  have "transactions (clear_tables paid_db) = []"
    unfolding clear_tables_eq p
    by (simp add: survives_def rowids_def demo_db_def)
  with r x show ?thesis by (simp add: p)
qed

text \<open>
  C5, amended. \<^verbatim>\<open>POST /api/restore\<close> is one transaction: it answers
  \<open>{success:true}\<close> or leaves the database exactly as it was. It empties \<open>tasks\<close>,
  \<open>payments\<close>, \<open>services\<close> and \<open>clients\<close>, in that order, and reinserts the rows of the
  document with their ids: after a successful restore each of the four tables holds
  exactly the rows of the document, kept by id. The handler has no statement on
  \<open>transactions\<close>, but the delete on \<open>clients\<close> cascades into it: the ledger rows that
  name a client of the old database are deleted, the others are left as they were
  (in a consistent database, those with no client id).
\<close>

theorem restore_replaces_tables:
  "clear_tables d = delete_clients (delete_services (delete_payments (delete_tasks d))) \<and>
   (case fst (restore b d) of
      Success \<Rightarrow>
        set (clients (snd (restore b d))) = set (k_clients b) \<and>
        sorted_ids (clients (snd (restore b d))) \<and>
        set (services (snd (restore b d))) = set (k_services b) \<and>
        sorted_ids (services (snd (restore b d))) \<and>
        set (payments (snd (restore b d))) = set (k_payments b) \<and>
        sorted_ids (payments (snd (restore b d))) \<and>
        set (tasks (snd (restore b d))) = set (k_tasks b) \<and>
        sorted_ids (tasks (snd (restore b d))) \<and>
        transactions (snd (restore b d)) =
          filter (\<lambda>(i, x). survives (rowids (clients d)) (x_client_id x)) (transactions d) \<and>
        (consistent d \<longrightarrow>
           transactions (snd (restore b d)) =
             filter (\<lambda>(i, x). x_client_id x = None) (transactions d))
    | r \<Rightarrow> snd (restore b d) = d)"
proof (intro conjI)
  show "clear_tables d = delete_clients (delete_services (delete_payments (delete_tasks d)))"
    by (rule clear_tables_def)
  show "case fst (restore b d) of
      Success \<Rightarrow>
        set (clients (snd (restore b d))) = set (k_clients b) \<and>
        sorted_ids (clients (snd (restore b d))) \<and>
        set (services (snd (restore b d))) = set (k_services b) \<and>
        sorted_ids (services (snd (restore b d))) \<and>
        set (payments (snd (restore b d))) = set (k_payments b) \<and>
        sorted_ids (payments (snd (restore b d))) \<and>
        set (tasks (snd (restore b d))) = set (k_tasks b) \<and>
        sorted_ids (tasks (snd (restore b d))) \<and>
        transactions (snd (restore b d)) =
          filter (\<lambda>(i, x). survives (rowids (clients d)) (x_client_id x)) (transactions d) \<and>
        (consistent d \<longrightarrow>
           transactions (snd (restore b d)) =
             filter (\<lambda>(i, x). x_client_id x = None) (transactions d))
    | r \<Rightarrow> snd (restore b d) = d"
  proof (cases "fst (restore b d) = Success")
    case False
    from restore_failure[OF False] False show ?thesis
      by (cases "fst (restore b d)") simp_all
  next
    case True
    then have r: "restore b d = (Success, snd (restore b d))" by (simp add: prod_eq_iff)
    note s = restore_success[OF r]
    have led: "transactions (snd (restore b d)) =
        filter (\<lambda>(i, x). survives (rowids (clients d)) (x_client_id x)) (transactions d)"
      using s by (simp add: clear_tables_eq)
    have "filter (\<lambda>(i, x). survives (rowids (clients d)) (x_client_id x)) (transactions d) =
        filter (\<lambda>(i, x). x_client_id x = None) (transactions d)" if "consistent d"
    proof (rule filter_cong[OF refl])
      fix y assume y: "y \<in> set (transactions d)"
      obtain i x where yx: "y = (i, x)" by (cases y)
      from that y yx have "fk_ok (x_client_id x) d"
        by (auto simp: consistent_def list_all_iff)
      then show "(case y of (i, x) \<Rightarrow> survives (rowids (clients d)) (x_client_id x)) =
          (case y of (i, x) \<Rightarrow> x_client_id x = None)"
        by (cases "x_client_id x") (simp_all add: yx fk_ok_def survives_def has_rowid_def)
    qed
    with led have "consistent d \<longrightarrow> transactions (snd (restore b d)) =
        filter (\<lambda>(i, x). x_client_id x = None) (transactions d)"
      by simp
    with s led show ?thesis by (simp add: True)
  qed
qed

theorem restore_replaces_tables_witness:
  "consistent paid_db \<and>
   fst (restore (backup ''2024-06-01T00:00:00.000Z'' demo_db) paid_db) = Success \<and>
   set (payments (snd (restore (backup ''2024-06-01T00:00:00.000Z'' demo_db) paid_db))) =
     {(1, acme_payment)} \<and>
   transactions (snd (restore (backup ''2024-06-01T00:00:00.000Z'' demo_db) paid_db)) = []"
proof -
  have p: "paid_db = demo_db\<lparr>
      payments := [(1, acme_payment\<lparr>p_advance_paid := Some 400,
         p_remaining_balance := Some 600, p_last_updated := Some ''2024-02-01 09:00:00''\<rparr>)],
      transactions := [(1, \<lparr>x_client_id = Some 1, x_amount = 400, x_type = Some ''payment'',
           x_created_at = Some ''2024-02-01 09:00:00''\<rparr>)],
      seq_transactions := 1\<rparr>"
    by (simp add: paid_db_def patch_payment_def select_payment_def transaction_def
        updatePayment_def update_payments_def insert_transaction_def to_number_def fk_ok_def
        has_rowid_def rowids_def put_row_def next_rowid_def demo_db_def acme_payment_def Let_def)
  have c: "consistent paid_db"
    unfolding p
    by (simp add: consistent_def sorted_ids_def rowids_def demo_db_def fk_ok_def has_rowid_def
        acme_payment_def)
  from restore_backup[OF demo_db_consistent, of "''2024-06-01T00:00:00.000Z''" paid_db]
  have ok: "fst (restore (backup ''2024-06-01T00:00:00.000Z'' demo_db) paid_db) = Success"
    by auto
  note t = restore_replaces_tables[of paid_db "backup ''2024-06-01T00:00:00.000Z'' demo_db",
      THEN conjunct2, unfolded ok response.case]
  from t have pay: "set (payments (snd (restore (backup ''2024-06-01T00:00:00.000Z'' demo_db)
      paid_db))) = {(1, acme_payment)}"
    by (simp add: backup_def demo_db_def)
  from t c have "transactions (snd (restore (backup ''2024-06-01T00:00:00.000Z'' demo_db)
      paid_db)) = filter (\<lambda>(i, x). x_client_id x = None) (transactions paid_db)"
    by blast
  then have led: "transactions (snd (restore (backup ''2024-06-01T00:00:00.000Z'' demo_db)
      paid_db)) = []"
    by (simp add: p)
  show ?thesis by (intro conjI c ok pay led)
qed

section \<open>The dashboard trends\<close>

lemma or_zero_0: "or_zero v = 0 \<longleftrightarrow> v = None \<or> v = Some 0"
  by (cases v) (simp_all add: or_zero_def)

lemma calculateTrend_zero: "calculateTrend fx cur 0 = ''+100%''"
  by (simp add: calculateTrend_def)

lemma calculateTrend_nonzero:
  "prev \<noteq> 0 \<Longrightarrow> calculateTrend fx cur prev =
     (if 0 \<le> (cur - prev) / prev * 100 then ''+'' else '''') @
       fx ((cur - prev) / prev * 100) @ ''%''"
  by (simp add: calculateTrend_def Let_def)

lemma sql_sum_Nil [simp]: "sql_sum col [] = None"
  by (simp add: sql_sum_def List.map_filter_simps)

lemma no_previous_rows:
  assumes "\<forall>(i, c) \<in> set (clients d). \<not> created_before first c"
  shows "filter (\<lambda>(c, p). created_before first c) (joined_payments d) = []"
  using assms by (auto simp: joined_payments_def filter_empty_conv)



section \<open>Every reachable state is consistent\<close>

lemma sorted_ids_next:
  "sorted_ids t \<Longrightarrow> sorted_ids (t @ [(next_rowid s t, r)])"
  using next_rowid_fresh[of _ t s]
  by (force simp: sorted_ids_def rowids_def sorted_wrt_append)

lemma sorted_ids_filter: "sorted_ids t \<Longrightarrow> sorted_ids (filter P t)"
  unfolding sorted_ids_def rowids_def
  by (induction t) auto

lemma sorted_ids_map:
  assumes "\<And>x. fst (f x) = fst x"
  shows "sorted_ids (map f t) = sorted_ids t"
proof -
  have "map fst (map f t) = map fst t" using assms by (induction t) auto
  then show ?thesis unfolding sorted_ids_def rowids_def by (simp only:)
qed

lemma fk_ok_mono:
  "set (rowids (clients d)) \<subseteq> set (rowids (clients d')) \<Longrightarrow> fk_ok c d \<Longrightarrow> fk_ok c d'"
  by (cases c) (auto simp: fk_ok_def has_rowid_def)

lemma consistent_empty: "consistent empty_db"
  by (simp add: consistent_def empty_db_def sorted_ids_def rowids_def)

lemma consistentD:
  assumes "consistent d"
  shows "sorted_ids (clients d)" "sorted_ids (services d)" "sorted_ids (payments d)"
    "sorted_ids (tasks d)" "sorted_ids (transactions d)"
    "\<And>i s. (i, s) \<in> set (services d) \<Longrightarrow> fk_ok (s_client_id s) d"
    "\<And>i p. (i, p) \<in> set (payments d) \<Longrightarrow> fk_ok (p_client_id p) d"
    "\<And>i t. (i, t) \<in> set (tasks d) \<Longrightarrow> fk_ok (t_client_id t) d"
    "\<And>i x. (i, x) \<in> set (transactions d) \<Longrightarrow> fk_ok (x_client_id x) d"
  using assms by (auto simp: consistent_def list_all_iff)

lemma consistentI:
  assumes "sorted_ids (clients d)" "sorted_ids (services d)" "sorted_ids (payments d)"
    "sorted_ids (tasks d)" "sorted_ids (transactions d)"
    "\<And>i s. (i, s) \<in> set (services d) \<Longrightarrow> fk_ok (s_client_id s) d"
    "\<And>i p. (i, p) \<in> set (payments d) \<Longrightarrow> fk_ok (p_client_id p) d"
    "\<And>i t. (i, t) \<in> set (tasks d) \<Longrightarrow> fk_ok (t_client_id t) d"
    "\<And>i x. (i, x) \<in> set (transactions d) \<Longrightarrow> fk_ok (x_client_id x) d"
  shows "consistent d"
  using assms by (auto simp: consistent_def list_all_iff)

lemma consistent_patch_payment:
  assumes "consistent d"
  shows "consistent (snd (patch_payment c a amt now d))"
proof (cases "fst (patch_payment c a amt now d) = Success")
  case False
  with patch_payment_atomic[of c a amt now d] assms show ?thesis by simp
next
  case True
  then obtain i pay where sel: "select_payment c d = Some (i, pay)"
    by (cases "select_payment c d") (auto simp: patch_payment_def)
  from select_payment_Some[OF sel] consistent_payment_client[OF assms]
  have fk: "fk_ok (Some c) d" by blast
  let ?d1 = "update_payments a (to_number (p_total_amount pay) - a) now c d"
  have d1: "consistent ?d1"
  proof (rule consistentI)
    show "sorted_ids (payments ?d1)"
      using consistentD(3)[OF assms]
      by (simp add: update_payments_def sorted_ids_map split: prod.splits)
    show "\<And>i p. (i, p) \<in> set (payments ?d1) \<Longrightarrow> fk_ok (p_client_id p) ?d1"
      using consistentD(7)[OF assms] fk
      by (auto simp: update_payments_def fk_ok_frame split: if_splits)
  qed (use consistentD[OF assms] in \<open>auto simp: update_payments_def fk_ok_frame\<close>)
  have snd_eq: "snd (patch_payment c a amt now d) =
      (case amt of None \<Rightarrow> ?d1
       | Some v \<Rightarrow> if 0 < v
          then ?d1\<lparr>transactions := transactions d @
               [(next_rowid (seq_transactions d) (transactions d),
                 \<lparr>x_client_id = Some c, x_amount = v, x_type = Some ''payment'',
                  x_created_at = Some now\<rparr>)],
             seq_transactions := next_rowid (seq_transactions d) (transactions d)\<rparr>
          else ?d1)"
    by (simp add: patch_payment_def sel transaction_updatePayment[OF fk refl])
  show ?thesis
  proof (cases amt)
    case None
    with snd_eq d1 show ?thesis by simp
  next
    case (Some v)
    show ?thesis
    proof (cases "0 < v")
      case False
      with snd_eq Some d1 show ?thesis by simp
    next
      case True
      let ?d2 = "?d1\<lparr>transactions := transactions d @
               [(next_rowid (seq_transactions d) (transactions d),
                 \<lparr>x_client_id = Some c, x_amount = v, x_type = Some ''payment'',
                  x_created_at = Some now\<rparr>)],
             seq_transactions := next_rowid (seq_transactions d) (transactions d)\<rparr>"
      have tx: "transactions ?d1 = transactions d" by (simp add: update_payments_def)
      have "consistent ?d2"
      proof (rule consistentI)
        show "sorted_ids (transactions ?d2)"
          using consistentD(5)[OF assms] by (simp add: sorted_ids_next)
        show "\<And>i x. (i, x) \<in> set (transactions ?d2) \<Longrightarrow> fk_ok (x_client_id x) ?d2"
          using consistentD(9)[OF d1] fk by (auto simp: fk_ok_frame tx)
      qed (use consistentD[OF d1] in \<open>auto simp: fk_ok_frame\<close>)
      with snd_eq Some True show ?thesis by simp
    qed
  qed
qed

text \<open>Replacing one table by rows that keep the invariant.\<close>

lemma consistent_seq [simp]:
  "consistent (d\<lparr>seq_clients := n\<rparr>) = consistent d"
  "consistent (d\<lparr>seq_services := n\<rparr>) = consistent d"
  "consistent (d\<lparr>seq_payments := n\<rparr>) = consistent d"
  "consistent (d\<lparr>seq_tasks := n\<rparr>) = consistent d"
  "consistent (d\<lparr>seq_transactions := n\<rparr>) = consistent d"
  by (simp_all add: consistent_def fk_ok_frame)

lemma consistent_clients:
  assumes "consistent d" and "sorted_ids t" and "set (rowids (clients d)) \<subseteq> set (rowids t)"
  shows "consistent (d\<lparr>clients := t\<rparr>)"
proof -
  have "fk_ok c d \<Longrightarrow> fk_ok c (d\<lparr>clients := t\<rparr>)" for c
    using assms(3) fk_ok_mono[of d "d\<lparr>clients := t\<rparr>" c] by simp
  then show ?thesis
    using consistentD[OF assms(1)] assms(2) by (intro consistentI) auto
qed

lemma consistent_services:
  assumes "consistent d" and "sorted_ids t"
    and "\<And>i s. (i, s) \<in> set t \<Longrightarrow> fk_ok (s_client_id s) d"
  shows "consistent (d\<lparr>services := t\<rparr>)"
  using consistentD[OF assms(1)] assms(2,3) by (intro consistentI) (auto simp: fk_ok_frame)

lemma consistent_payments:
  assumes "consistent d" and "sorted_ids t"
    and "\<And>i p. (i, p) \<in> set t \<Longrightarrow> fk_ok (p_client_id p) d"
  shows "consistent (d\<lparr>payments := t\<rparr>)"
  using consistentD[OF assms(1)] assms(2,3) by (intro consistentI) (auto simp: fk_ok_frame)

lemma consistent_tasks:
  assumes "consistent d" and "sorted_ids t"
    and "\<And>i r. (i, r) \<in> set t \<Longrightarrow> fk_ok (t_client_id r) d"
  shows "consistent (d\<lparr>tasks := t\<rparr>)"
  using consistentD[OF assms(1)] assms(2,3) by (intro consistentI) (auto simp: fk_ok_frame)

lemma consistent_transactions:
  assumes "consistent d" and "sorted_ids t"
    and "\<And>i x. (i, x) \<in> set t \<Longrightarrow> fk_ok (x_client_id x) d"
  shows "consistent (d\<lparr>transactions := t\<rparr>)"
  using consistentD[OF assms(1)] assms(2,3) by (intro consistentI) (auto simp: fk_ok_frame)

lemma sorted_ids_put_next: "sorted_ids t \<Longrightarrow> sorted_ids (put_row (next_rowid s t) r t)"
  by (simp add: put_row_next sorted_ids_next)

lemma rowids_put_row: "set (rowids (put_row i r t)) = insert i (set (rowids t))"
  by (simp add: rowids_def)

text \<open>Each statement keeps the invariant.\<close>

lemma consistent_insert_client:
  assumes "consistent d" and "insert_client nm em ph co nt mb now d = Inr (i, d')"
  shows "consistent d'"
proof -
  from assms(2) obtain n where
    d': "d' = d\<lparr>clients := put_row (next_rowid (seq_clients d) (clients d))
            \<lparr>c_name = n, c_email = em, c_phone = ph, c_company = co, c_notes = nt,
             c_managed_by = mb, c_status = Some ''active'', c_created_at = Some now\<rparr>
            (clients d),
          seq_clients := next_rowid (seq_clients d) (clients d)\<rparr>"
    by (cases nm) (auto simp: insert_client_def Let_def)
  show ?thesis
    unfolding d' consistent_seq
    by (rule consistent_clients[OF assms(1)])
       (auto simp: sorted_ids_put_next consistentD(1)[OF assms(1)] rowids_put_row)
qed

lemma consistent_insert_service:
  assumes "consistent d" and "insert_service cid st d = Inr d'"
  shows "consistent d'"
proof -
  from assms(2) obtain s where fk: "fk_ok (Some cid) d" and
    d': "d' = d\<lparr>services := put_row (next_rowid (seq_services d) (services d))
            \<lparr>s_client_id = Some cid, s_service_type = s, s_price = Some 0\<rparr> (services d),
          seq_services := next_rowid (seq_services d) (services d)\<rparr>"
    by (cases st) (auto simp: insert_service_def Let_def split: if_splits)
  show ?thesis
    unfolding d' consistent_seq
    by (rule consistent_services[OF assms(1)])
       (use fk consistentD(2,6)[OF assms(1)] in \<open>auto simp: sorted_ids_put_next\<close>)
qed

lemma consistent_insert_payment:
  assumes "consistent d" and "insert_payment cid tot adv rem now d = Inr d'"
  shows "consistent d'"
proof -
  from assms(2) have fk: "fk_ok (Some cid) d" and
    d': "d' = d\<lparr>payments := put_row (next_rowid (seq_payments d) (payments d))
            \<lparr>p_client_id = Some cid, p_total_amount = Some tot, p_advance_paid = Some adv,
             p_remaining_balance = Some rem, p_last_updated = Some now\<rparr> (payments d),
          seq_payments := next_rowid (seq_payments d) (payments d)\<rparr>"
    by (auto simp: insert_payment_def Let_def split: if_splits)
  show ?thesis
    unfolding d' consistent_seq
    by (rule consistent_payments[OF assms(1)])
       (use fk consistentD(3,7)[OF assms(1)] in \<open>auto simp: sorted_ids_put_next\<close>)
qed

lemma for_each_preserves:
  assumes "\<And>x d d'. P d \<Longrightarrow> run x d = Inr d' \<Longrightarrow> P d'"
    and "P d" and "for_each run xs d = Inr d'"
  shows "P d'"
  using assms(2,3)
proof (induction xs arbitrary: d)
  case Nil
  then show ?case by simp
next
  case (Cons x xs)
  from Cons.prems(2) obtain d1 where "run x d = Inr d1" "for_each run xs d1 = Inr d'"
    by (auto split: sum.splits)
  with Cons.IH[of d1] assms(1)[OF Cons.prems(1)] show ?case by blast
qed

lemma consistent_insert_services:
  assumes "consistent d" and "for_each (insert_service cid) ss d = Inr d'"
  shows "consistent d'"
proof (rule for_each_preserves[where P = consistent and run = "insert_service cid",
      OF _ assms])
  fix x d d' assume "consistent d" "insert_service cid x d = Inr d'"
  then show "consistent d'" by (rule consistent_insert_service)
qed

lemma consistent_create_client:
  assumes "consistent d"
  shows "consistent (snd (create_client b now d))"
proof (cases "insertClient b now d")
  case (Inl e)
  with assms show ?thesis by (simp add: create_client_def transaction_def)
next
  case (Inr r)
  obtain i d3 where r: "r = (i, d3)" by (cases r)
  from Inr[unfolded r] obtain cid d1 ss d2 where
    s1: "insert_client (n_name b) (n_email b) (n_phone b) (n_company b) (n_notes b)
             (n_managed_by b) now d = Inr (cid, d1)" and
    s2: "for_each (insert_service cid) ss d1 = Inr d2" and
    s3: "insert_payment cid (n_total_amount b) (n_advance_paid b)
           (n_total_amount b - n_advance_paid b) now d2 = Inr d3"
    by (auto simp: insertClient_def Let_def split: sum.splits option.splits prod.splits)
  have "consistent d1" by (rule consistent_insert_client[OF assms s1])
  then have "consistent d2"
    by (rule consistent_insert_services[OF _ s2])
  then have "consistent d3" by (rule consistent_insert_payment[OF _ s3])
  with Inr r show ?thesis by (simp add: create_client_def transaction_def)
qed

lemma consistent_update_client:
  assumes "consistent d"
  shows "consistent (snd (update_client c u d))"
proof (cases "updateClient u c d")
  case (Inl e)
  with assms show ?thesis by (simp add: update_client_def transaction_def)
next
  case (Inr r)
  obtain d2 where r: "r = ((), d2)" by (cases r) auto
  from Inr[unfolded r] obtain d1 where
    s1: "update_client_row (u_name u) (u_email u) (u_phone u) (u_company u) (u_notes u)
             (u_managed_by u) c d = Inr d1" and
    s2: "d2 = d1 \<or> (\<exists>ss. for_each (insert_service c) ss (delete_services_of c d1) = Inr d2)"
    by (auto simp: updateClient_def split: sum.splits option.splits)
  have c1: "consistent d1"
  proof (cases "d1 = d")
    case True
    with assms show ?thesis by simp
  next
    case False
    with s1 obtain n where d1: "d1 = d\<lparr>clients :=
          map (\<lambda>(i, r). if i = c
                 then (i, r\<lparr>c_name := n, c_email := u_email u, c_phone := u_phone u,
                            c_company := u_company u, c_notes := u_notes u,
                            c_managed_by := u_managed_by u\<rparr>)
                 else (i, r)) (clients d)\<rparr>"
      by (auto simp: update_client_row_def split: if_splits option.splits)
    have ids: "rowids (map (\<lambda>(i, r). if i = c
                 then (i, r\<lparr>c_name := n, c_email := u_email u, c_phone := u_phone u,
                            c_company := u_company u, c_notes := u_notes u,
                            c_managed_by := u_managed_by u\<rparr>)
                 else (i, r)) (clients d)) = rowids (clients d)"
      by (induction "clients d") (auto simp: rowids_def split: prod.splits)
    show ?thesis
      unfolding d1
      by (rule consistent_clients[OF assms])
         (use consistentD(1)[OF assms] in \<open>simp_all add: sorted_ids_def ids\<close>)
  qed
  have c1': "consistent (delete_services_of c d1)"
    unfolding delete_services_of_def
    by (rule consistent_services[OF c1])
       (use consistentD(2,6)[OF c1] in \<open>auto simp: sorted_ids_filter\<close>)
  from s2 have "consistent d2"
  proof
    assume "d2 = d1"
    with c1 show ?thesis by simp
  next
    assume "\<exists>ss. for_each (insert_service c) ss (delete_services_of c d1) = Inr d2"
    then obtain ss where "for_each (insert_service c) ss (delete_services_of c d1) = Inr d2" ..
    from consistent_insert_services[OF c1' this] show ?thesis .
  qed
  with Inr r show ?thesis by (simp add: update_client_def transaction_def)
qed

lemma consistent_delete_client:
  assumes "consistent d"
  shows "consistent (snd (delete_client c d))"
proof -
  let ?gone = "filter (\<lambda>i. i = c) (rowids (clients d))"
  have keep: "fk_ok k (d\<lparr>clients := filter (\<lambda>(i, r). i \<noteq> c) (clients d)\<rparr>)"
    if "fk_ok k d" "survives ?gone k" for k
    using that by (cases k) (auto simp: fk_ok_def survives_def has_rowid_def rowids_def)
  have "consistent (delete_client_row c d)"
    unfolding delete_client_row_def cascade_def
    using consistentD[OF assms] keep
    by (intro consistentI) (auto simp: sorted_ids_filter fk_ok_frame)
  then show ?thesis by (simp add: delete_client_def)
qed

lemma consistent_create_task:
  assumes "consistent d"
  shows "consistent (snd (create_task cl ti asg due now d))"
proof (cases "ti = None \<or> \<not> fk_ok cl d")
  case True
  with assms show ?thesis by (auto simp: create_task_def split: option.splits)
next
  case False
  then obtain t where ti: "ti = Some t" and fk: "fk_ok cl d" by auto
  have "consistent (d\<lparr>tasks := put_row (next_rowid (seq_tasks d) (tasks d))
               \<lparr>t_client_id = cl, t_title = t, t_assigned_to = asg,
                t_due_date = due, t_status = Some ''pending'', t_created_at = Some now\<rparr>
               (tasks d)\<rparr>)"
    by (rule consistent_tasks[OF assms])
       (use fk consistentD(4,8)[OF assms] in \<open>auto simp: sorted_ids_put_next\<close>)
  then show ?thesis by (simp add: create_task_def ti fk Let_def)
qed

lemma consistent_patch_task:
  assumes "consistent d"
  shows "consistent (snd (patch_task t st d))"
proof -
  have "consistent (d\<lparr>tasks :=
      map (\<lambda>(i, r). if i = t then (i, r\<lparr>t_status := st\<rparr>) else (i, r)) (tasks d)\<rparr>)"
  proof (rule consistent_tasks[OF assms])
    show "sorted_ids (map (\<lambda>(i, r). if i = t then (i, r\<lparr>t_status := st\<rparr>) else (i, r)) (tasks d))"
      using consistentD(4)[OF assms] by (simp add: sorted_ids_map split: prod.splits)
    show "\<And>i r. (i, r) \<in> set (map (\<lambda>(i, r). if i = t then (i, r\<lparr>t_status := st\<rparr>) else (i, r))
        (tasks d)) \<Longrightarrow> fk_ok (t_client_id r) d"
      using consistentD(8)[OF assms] by (auto split: if_splits)
  qed
  then show ?thesis by (simp add: patch_task_def)
qed

lemma consistent_delete_task:
  assumes "consistent d"
  shows "consistent (snd (delete_task t d))"
proof -
  have "consistent (d\<lparr>tasks := filter (\<lambda>(i, r). i \<noteq> t) (tasks d)\<rparr>)"
    by (rule consistent_tasks[OF assms])
       (use consistentD(4,8)[OF assms] in \<open>auto simp: sorted_ids_filter\<close>)
  then show ?thesis by (simp add: delete_task_def)
qed

lemma consistent_clear_tables:
  assumes "consistent d"
  shows "consistent (clear_tables d)"
proof -
  have none: "x_client_id x = None"
    if "(i, x) \<in> set (transactions d)" "survives (rowids (clients d)) (x_client_id x)" for i x
    using consistentD(9)[OF assms that(1)] that(2)
    by (cases "x_client_id x") (auto simp: fk_ok_def survives_def has_rowid_def)
  have s: "sorted_ids (filter (\<lambda>(i, x). survives (rowids (clients d)) (x_client_id x))
      (transactions d))"
    by (rule sorted_ids_filter[OF consistentD(5)[OF assms]])
  have e: "sorted_ids ([] :: 'a table)" for dummy :: 'a
    by (simp add: sorted_ids_def rowids_def)
  show ?thesis
    unfolding clear_tables_eq
  proof (rule consistentI)
    fix i x
    assume "(i, x) \<in> set (transactions (d\<lparr>clients := [], services := [], payments := [],
        tasks := [], transactions := filter (\<lambda>(i, x). survives (rowids (clients d))
          (x_client_id x)) (transactions d)\<rparr>))"
    then have "x_client_id x = None" using none by auto
    then show "fk_ok (x_client_id x) (d\<lparr>clients := [], services := [], payments := [],
        tasks := [], transactions := filter (\<lambda>(i, x). survives (rowids (clients d))
          (x_client_id x)) (transactions d)\<rparr>)"
      by (simp add: fk_ok_def)
  qed (simp_all add: s e)
qed

lemma consistent_restore_client:
  assumes "consistent d" and "restore_client r d = Inr d'"
  shows "consistent d'"
proof -
  from assms(2) have fresh: "\<not> has_rowid (fst r) (clients d)"
    and d': "d' = d\<lparr>clients := put_row (fst r) (snd r) (clients d),
                     seq_clients := max (seq_clients d) (fst r)\<rparr>"
    by (auto simp: restore_client_def split: if_splits)
  show ?thesis
    unfolding d' consistent_seq
    by (rule consistent_clients[OF assms(1)])
       (use fresh consistentD(1)[OF assms(1)] in \<open>auto simp: sorted_ids_put_row rowids_put_row\<close>)
qed

lemma consistent_restore_service:
  assumes "consistent d" and "restore_service r d = Inr d'"
  shows "consistent d'"
proof -
  from assms(2) have fresh: "\<not> has_rowid (fst r) (services d)"
    and fk: "fk_ok (s_client_id (snd r)) d"
    and d': "d' = d\<lparr>services := put_row (fst r) (snd r) (services d),
                     seq_services := max (seq_services d) (fst r)\<rparr>"
    by (auto simp: restore_service_def split: if_splits)
  show ?thesis
    unfolding d' consistent_seq
    by (rule consistent_services[OF assms(1)])
       (use fresh fk consistentD(2,6)[OF assms(1)] in \<open>auto simp: sorted_ids_put_row\<close>)
qed

lemma consistent_restore_payment:
  assumes "consistent d" and "restore_payment r d = Inr d'"
  shows "consistent d'"
proof -
  from assms(2) have fresh: "\<not> has_rowid (fst r) (payments d)"
    and fk: "fk_ok (p_client_id (snd r)) d"
    and d': "d' = d\<lparr>payments := put_row (fst r) (snd r) (payments d),
                     seq_payments := max (seq_payments d) (fst r)\<rparr>"
    by (auto simp: restore_payment_def split: if_splits)
  show ?thesis
    unfolding d' consistent_seq
    by (rule consistent_payments[OF assms(1)])
       (use fresh fk consistentD(3,7)[OF assms(1)] in \<open>auto simp: sorted_ids_put_row\<close>)
qed

lemma consistent_restore_task:
  assumes "consistent d" and "restore_task r d = Inr d'"
  shows "consistent d'"
proof -
  from assms(2) have fresh: "\<not> has_rowid (fst r) (tasks d)"
    and fk: "fk_ok (t_client_id (snd r)) d"
    and d': "d' = d\<lparr>tasks := put_row (fst r) (snd r) (tasks d),
                     seq_tasks := max (seq_tasks d) (fst r)\<rparr>"
    by (auto simp: restore_task_def split: if_splits)
  show ?thesis
    unfolding d' consistent_seq
    by (rule consistent_tasks[OF assms(1)])
       (use fresh fk consistentD(4,8)[OF assms(1)] in \<open>auto simp: sorted_ids_put_row\<close>)
qed

lemma consistent_restore:
  assumes "consistent d"
  shows "consistent (snd (restore doc d))"
proof (cases "restore_body doc d")
  case (Inl e)
  with assms show ?thesis by (simp add: restore_def transaction_def)
next
  case (Inr r)
  obtain d4 where r: "r = ((), d4)" by (cases r) auto
  from Inr[unfolded r] obtain d1 d2 d3 where
    r1: "for_each restore_client (k_clients doc) (clear_tables d) = Inr d1" and
    r2: "for_each restore_service (k_services doc) d1 = Inr d2" and
    r3: "for_each restore_payment (k_payments doc) d2 = Inr d3" and
    r4: "for_each restore_task (k_tasks doc) d3 = Inr d4"
    by (auto simp: restore_body_def split: sum.splits)
  have c0: "consistent (clear_tables d)" by (rule consistent_clear_tables[OF assms])
  have c1: "consistent d1"
    by (rule for_each_preserves[where P = consistent and run = restore_client, OF _ c0 r1])
       (rule consistent_restore_client)
  have c2: "consistent d2"
    by (rule for_each_preserves[where P = consistent and run = restore_service, OF _ c1 r2])
       (rule consistent_restore_service)
  have c3: "consistent d3"
    by (rule for_each_preserves[where P = consistent and run = restore_payment, OF _ c2 r3])
       (rule consistent_restore_payment)
  have "consistent d4"
    by (rule for_each_preserves[where P = consistent and run = restore_task, OF _ c3 r4])
       (rule consistent_restore_task)
  with Inr r show ?thesis by (simp add: restore_def transaction_def)
qed

text \<open>
  The hypothesis \<open>consistent\<close> of the theorems on the routes is no restriction: it
  holds in every state the server reaches from an empty database.
\<close>

lemma reachable_consistent: "reachable d \<Longrightarrow> consistent d"
proof (induction rule: reachable.induct)
  case start
  show ?case by (rule consistent_empty)
next
  case (post_client d b now)
  then show ?case by (simp add: consistent_create_client)
next
  case (patch_client d c u)
  then show ?case by (simp add: consistent_update_client)
next
  case (del_client d c)
  then show ?case by (simp add: consistent_delete_client)
next
  case (patch_pay d c a amt now)
  then show ?case by (simp add: consistent_patch_payment)
next
  case (post_task d cl ti asg due now)
  then show ?case by (simp add: consistent_create_task)
next
  case (patch_tsk d t st)
  then show ?case by (simp add: consistent_patch_task)
next
  case (del_task d t)
  then show ?case by (simp add: consistent_delete_task)
next
  case (post_restore d doc)
  then show ?case by (simp add: consistent_restore)
qed

end
